theory Spec2Isabelle
  imports Main "HOL-Library.Word"
begin

unbundle bit_operations_syntax

section \<open>Configuration, memory and diagnostics\<close>

text \<open>
  The poisoning layer of umm_malloc (\<^verbatim>\<open>src/umm_poison.c\<close>) works on raw bytes of the
  heap. Memory is a total map from addresses to bytes; addresses and \<^verbatim>\<open>size_t\<close> values
  are words of the platform's width \<open>'a\<close>, so pointer and size arithmetic wraps exactly as
  on a flat address space. \<^verbatim>\<open>NULL\<close> is address 0.
\<close>

type_synonym byte = "8 word"
type_synonym 'a memory = "'a word \<Rightarrow> byte"

text \<open>
  The macros and declarations that \<^verbatim>\<open>umm_poison.c\<close> uses but does not define are
  parameters of the model:
  \<^item> \<open>UMM_POISON_SIZE_BEFORE\<close>, \<open>UMM_POISON_SIZE_AFTER\<close>: the guard sizes in bytes;
  \<^item> \<open>LEN_TYPE_SIZE\<close>: \<^verbatim>\<open>sizeof(UMM_POISONED_BLOCK_LEN_TYPE)\<close>, an unsigned integer type;
  \<^item> \<open>UMM_BLOCKSIZE\<close>: the stride of the block table, \<^verbatim>\<open>sizeof(umm_block)\<close>;
  \<^item> \<open>UMM_FREELIST_MASK\<close>, \<open>UMM_BLOCKNO_MASK\<close>: the tag bit and the index bits of the
    16-bit \<^verbatim>\<open>next\<close> link;
  \<^item> \<open>UMM_HEAP\<close>: the address of block 0;
  \<^item> \<open>BODY_OFFSET\<close>: the offset of \<^verbatim>\<open>body.data\<close> inside \<^verbatim>\<open>umm_block\<close> (the size of its
    header); \<^verbatim>\<open>header.used.next\<close> is the first member, at offset 0;
  \<^item> \<open>BIG_ENDIAN\<close>: the byte order in which the platform stores integers.
\<close>

record 'p umm_config =
  UMM_POISON_SIZE_BEFORE :: nat
  UMM_POISON_SIZE_AFTER :: nat
  LEN_TYPE_SIZE :: nat
  UMM_BLOCKSIZE :: nat
  UMM_FREELIST_MASK :: "16 word"
  UMM_BLOCKNO_MASK :: "16 word"
  UMM_HEAP :: 'p
  BODY_OFFSET :: nat
  BIG_ENDIAN :: bool

text \<open>
  What \<^verbatim>\<open>DBGLOG_ERROR\<close> receives, one constructor for each format string of the file, with
  its arguments. An address is recorded as the pointer itself; the code prints it through
  \<^verbatim>\<open>DBGLOG_32_BIT_PTR\<close>, so on a target with wider pointers the printed value is its low
  32 bits.
\<close>

datatype 'p log_msg =
    Log_no_poison string 'p
  | Log_byte byte
  | Log_newline
  | Log_free_block 'p

definition POISON_BYTE :: byte where
  "POISON_BYTE = 0xa5"

subsection \<open>Integers in memory\<close>

text \<open>
  An unsigned integer of \<open>k\<close> bytes at address \<open>p\<close>: the byte of significance \<open>i\<close> lives
  at offset \<open>byte_pos cfg k i\<close>.
\<close>

definition byte_pos :: "'a::len word umm_config \<Rightarrow> nat \<Rightarrow> nat \<Rightarrow> nat" where
  "byte_pos cfg k i = (if BIG_ENDIAN cfg then k - 1 - i else i)"

definition load_uint :: "'a::len word umm_config \<Rightarrow> 'a memory \<Rightarrow> 'a word \<Rightarrow> nat \<Rightarrow> nat" where
  "load_uint cfg m p k =
     (\<Sum>i\<leftarrow>[0..<k]. unat (m (p + of_nat (byte_pos cfg k i))) * 256 ^ i)"

text \<open>Storing keeps the low \<open>k\<close> bytes of the value: the cast to the field's type.\<close>

definition store_uint :: "'a::len word umm_config \<Rightarrow> 'a memory \<Rightarrow> 'a word \<Rightarrow> nat \<Rightarrow> nat \<Rightarrow> 'a memory" where
  "store_uint cfg m p k v =
     fold (\<lambda>i m'. m'(p + of_nat (byte_pos cfg k i) := of_nat (v div 256 ^ i))) [0..<k] m"

text \<open>The C library's \<^verbatim>\<open>memset(ptr, c, n)\<close>.\<close>

definition memset :: "'a::len memory \<Rightarrow> 'a word \<Rightarrow> byte \<Rightarrow> 'a word \<Rightarrow> 'a memory" where
  "memset m ptr c n = fold (\<lambda>i m'. m'(ptr + of_nat i := c)) [0..<unat n] m"

section \<open>The poisoning functions\<close>

text \<open>\<^verbatim>\<open>poison_size(s)\<close>: the overhead of a block of size \<open>s\<close>, computed in \<^verbatim>\<open>size_t\<close>.\<close>

definition poison_size :: "'a::len word umm_config \<Rightarrow> 'a word \<Rightarrow> 'a word" where
  "poison_size cfg s =
     (if s \<noteq> 0
      then of_nat (UMM_POISON_SIZE_BEFORE cfg) + of_nat (LEN_TYPE_SIZE cfg)
             + of_nat (UMM_POISON_SIZE_AFTER cfg)
      else 0)"

text \<open>\<^verbatim>\<open>dump_mem\<close>: one log call for each of the \<open>len\<close> bytes from \<open>ptr\<close>.\<close>

definition dump_mem :: "'a::len memory \<Rightarrow> 'a word \<Rightarrow> 'a word \<Rightarrow> 'a word log_msg list" where
  "dump_mem m ptr len = map (\<lambda>i. Log_byte (m (ptr + of_nat i))) [0..<unat len]"

definition put_poison :: "'a::len memory \<Rightarrow> 'a word \<Rightarrow> 'a word \<Rightarrow> 'a memory" where
  "put_poison m ptr psize = memset m ptr POISON_BYTE psize"

text \<open>
  The \<^verbatim>\<open>for\<close> loop of \<^verbatim>\<open>check_poison\<close>, from index \<open>i\<close>: the value of \<^verbatim>\<open>ok\<close> when it
  ends.
\<close>

function check_poison_loop :: "'a::len memory \<Rightarrow> 'a word \<Rightarrow> 'a word \<Rightarrow> 'a word \<Rightarrow> bool" where
  "check_poison_loop m ptr psize i =
     (if i < psize
      then (if m (ptr + i) \<noteq> POISON_BYTE then False
            else check_poison_loop m ptr psize (i + 1))
      else True)"
  by pat_completeness auto
termination
proof (relation "measure (\<lambda>(m, ptr, psize, i). unat psize - unat i)")
  show "wf (measure (\<lambda>(m, ptr, psize, i). unat psize - unat i))"
    by simp
next
  fix m :: "'a memory" and ptr psize i :: "'a word"
  assume lt: "i < psize"
  then have less: "unat i < unat psize"
    by (simp add: word_less_nat_alt)
  then have "Suc (unat i) \<le> unat psize"
    by simp
  also have "unat psize < 2 ^ LENGTH('a)"
    by (rule unsigned_less)
  finally have "unat i + unat (1 :: 'a word) < 2 ^ LENGTH('a)"
    by simp
  then have "unat (i + 1) = unat i + unat (1 :: 'a word)"
    by (simp only: unat_add_lem)
  with less show "((m, ptr, psize, i + 1), (m, ptr, psize, i))
      \<in> measure (\<lambda>(m, ptr, psize, i). unat psize - unat i)"
    by simp
qed

declare check_poison_loop.simps [simp del]

definition check_poison ::
  "'a::len memory \<Rightarrow> 'a word \<Rightarrow> 'a word \<Rightarrow> string \<Rightarrow> bool \<times> 'a word log_msg list" where
  "check_poison m ptr psize where_str =
     (let ok = check_poison_loop m ptr psize 0
      in (ok, if \<not> ok
              then Log_no_poison where_str ptr # dump_mem m ptr psize @ [Log_newline]
              else []))"

text \<open>
  The block table: \<^verbatim>\<open>&UMM_BLOCK(c)\<close>, the \<^verbatim>\<open>header.used.next\<close> link of the block at
  \<open>pblock\<close>, \<^verbatim>\<open>UMM_NBLOCK(c)\<close>, and the address of \<^verbatim>\<open>body.data\<close>.
\<close>

definition UMM_BLOCK :: "'a::len word umm_config \<Rightarrow> 16 word \<Rightarrow> 'a word" where
  "UMM_BLOCK cfg c = UMM_HEAP cfg + ucast c * of_nat (UMM_BLOCKSIZE cfg)"

definition block_next :: "'a::len word umm_config \<Rightarrow> 'a memory \<Rightarrow> 'a word \<Rightarrow> 16 word" where
  "block_next cfg m pblock = of_nat (load_uint cfg m pblock 2)"

definition UMM_NBLOCK :: "'a::len word umm_config \<Rightarrow> 'a memory \<Rightarrow> 16 word \<Rightarrow> 16 word" where
  "UMM_NBLOCK cfg m c = block_next cfg m (UMM_BLOCK cfg c)"

definition body_data :: "'a::len word umm_config \<Rightarrow> 'a word \<Rightarrow> 'a word" where
  "body_data cfg pblock = pblock + of_nat (BODY_OFFSET cfg)"

text \<open>
  \<^verbatim>\<open>check_poison_block(pblock)\<close>: the result and what it logs. The post-guard is found
  through the length field read from the block.
\<close>

definition check_poison_block ::
  "'a::len word umm_config \<Rightarrow> 'a memory \<Rightarrow> 'a word \<Rightarrow> bool \<times> 'a word log_msg list" where
  "check_poison_block cfg m pblock =
     (if block_next cfg m pblock AND UMM_FREELIST_MASK cfg \<noteq> 0
      then (True, [Log_free_block pblock])
      else
        let pc = body_data cfg pblock;
            (ok1, log1) = check_poison m (pc + of_nat (LEN_TYPE_SIZE cfg))
                            (of_nat (UMM_POISON_SIZE_BEFORE cfg)) ''before''
        in if \<not> ok1 then (False, log1)
           else
             let (ok2, log2) = check_poison m
                   (pc + of_nat (load_uint cfg m pc (LEN_TYPE_SIZE cfg))
                       - of_nat (UMM_POISON_SIZE_AFTER cfg))
                   (of_nat (UMM_POISON_SIZE_AFTER cfg)) ''after''
             in if \<not> ok2 then (False, log1 @ log2)
                else (True, log1 @ log2))"

text \<open>
  \<^verbatim>\<open>get_poisoned(ptr, size_w_poison)\<close>: the adjusted pointer and the memory after the two
  guards and the length field are written, in the order of the source.
\<close>

definition get_poisoned ::
  "'a::len word umm_config \<Rightarrow> 'a memory \<Rightarrow> 'a word \<Rightarrow> 'a word \<Rightarrow> 'a word \<times> 'a memory" where
  "get_poisoned cfg m ptr size_w_poison =
     (if size_w_poison \<noteq> 0 \<and> ptr \<noteq> 0
      then
        let m1 = put_poison m (ptr + of_nat (LEN_TYPE_SIZE cfg))
                   (of_nat (UMM_POISON_SIZE_BEFORE cfg));
            m2 = put_poison m1 (ptr + size_w_poison - of_nat (UMM_POISON_SIZE_AFTER cfg))
                   (of_nat (UMM_POISON_SIZE_AFTER cfg));
            m3 = store_uint cfg m2 ptr (LEN_TYPE_SIZE cfg) (unat size_w_poison)
        in (ptr + of_nat (LEN_TYPE_SIZE cfg) + of_nat (UMM_POISON_SIZE_BEFORE cfg), m3)
      else (ptr, m))"

text \<open>
  \<^verbatim>\<open>get_unpoisoned(ptr)\<close>: the raw pointer and what the check of its block logs. The
  block index is the offset from the heap divided by the block size (an unsigned
  division, \<^verbatim>\<open>UMM_BLOCKSIZE\<close> being a \<^verbatim>\<open>sizeof\<close>), kept in a \<^verbatim>\<open>uint16_t\<close>; the result
  of the check is dropped.
\<close>

definition get_unpoisoned ::
  "'a::len word umm_config \<Rightarrow> 'a memory \<Rightarrow> 'a word \<Rightarrow> 'a word \<times> 'a word log_msg list" where
  "get_unpoisoned cfg m ptr =
     (if ptr \<noteq> 0
      then
        let ptr' = ptr - (of_nat (LEN_TYPE_SIZE cfg) + of_nat (UMM_POISON_SIZE_BEFORE cfg));
            c = (ucast ((ptr' - UMM_HEAP cfg) div of_nat (UMM_BLOCKSIZE cfg)) :: 16 word);
            (ok, lg) = check_poison_block cfg m (UMM_BLOCK cfg c)
        in (ptr', lg)
      else (ptr, []))"

section \<open>The allocation functions\<close>

text \<open>
  The allocator under the poisoning layer (\<^verbatim>\<open>umm_malloc\<close>, \<^verbatim>\<open>umm_realloc\<close>,
  \<^verbatim>\<open>umm_free\<close>) is not part of the file: its primitives are parameters. Each receives the
  memory and returns the memory it leaves, with the pointer it returns.
\<close>

type_synonym 'a malloc_fn = "'a word \<Rightarrow> 'a memory \<Rightarrow> 'a word \<times> 'a memory"
type_synonym 'a realloc_fn = "'a word \<Rightarrow> 'a word \<Rightarrow> 'a memory \<Rightarrow> 'a word \<times> 'a memory"
type_synonym 'a free_fn = "'a word \<Rightarrow> 'a memory \<Rightarrow> 'a memory"

definition umm_poison_malloc ::
  "'a::len word umm_config \<Rightarrow> 'a malloc_fn \<Rightarrow> 'a memory \<Rightarrow> 'a word \<Rightarrow> 'a word \<times> 'a memory" where
  "umm_poison_malloc cfg umm_malloc m sz =
     (let size' = sz + poison_size cfg sz;
          (ret, m1) = umm_malloc size' m
      in get_poisoned cfg m1 ret size')"

definition umm_poison_calloc ::
  "'a::len word umm_config \<Rightarrow> 'a malloc_fn \<Rightarrow> 'a memory \<Rightarrow> 'a word \<Rightarrow> 'a word
     \<Rightarrow> 'a word \<times> 'a memory" where
  "umm_poison_calloc cfg umm_malloc m num item_size =
     (let sz = item_size * num;
          size' = sz + poison_size cfg sz;
          (ret, m1) = umm_malloc size' m;
          m2 = (if ret \<noteq> 0 then memset m1 ret 0 size' else m1)
      in get_poisoned cfg m2 ret size')"

text \<open>The resize and the release also return what the check of the old block logs.\<close>

definition umm_poison_realloc ::
  "'a::len word umm_config \<Rightarrow> 'a realloc_fn \<Rightarrow> 'a memory \<Rightarrow> 'a word \<Rightarrow> 'a word
     \<Rightarrow> 'a word \<times> 'a memory \<times> 'a word log_msg list" where
  "umm_poison_realloc cfg umm_realloc m ptr sz =
     (let (ptr', lg) = get_unpoisoned cfg m ptr;
          size' = sz + poison_size cfg sz;
          (ret, m1) = umm_realloc ptr' size' m;
          (ret', m2) = get_poisoned cfg m1 ret size'
      in (ret', m2, lg))"

definition umm_poison_free ::
  "'a::len word umm_config \<Rightarrow> 'a free_fn \<Rightarrow> 'a memory \<Rightarrow> 'a word
     \<Rightarrow> 'a memory \<times> 'a word log_msg list" where
  "umm_poison_free cfg umm_free m ptr =
     (let (ptr', lg) = get_unpoisoned cfg m ptr
      in (umm_free ptr' m, lg))"

section \<open>The heap scan\<close>

text \<open>
  The \<^verbatim>\<open>while\<close> loop of \<^verbatim>\<open>umm_poison_check\<close>, at block \<open>cur\<close>. Corrupted links can
  form a cycle, and then the loop never ends: that is the result \<open>None\<close>. Otherwise the
  result is the returned \<^verbatim>\<open>ok\<close>, the indices of the blocks \<^verbatim>\<open>check_poison_block\<close> was
  called on, in order, and the log. \<^verbatim>\<open>ok\<close> is true whenever the loop condition is
  tested, so leaving the loop there returns true.
\<close>

partial_function (option) poison_check_loop ::
  "'a::len word umm_config \<Rightarrow> 'a memory \<Rightarrow> 16 word \<Rightarrow> 16 word list \<Rightarrow> 'a word log_msg list
     \<Rightarrow> (bool \<times> 16 word list \<times> 'a word log_msg list) option" where
  "poison_check_loop cfg m cur calls lg =
     (if UMM_NBLOCK cfg m cur AND UMM_BLOCKNO_MASK cfg \<noteq> 0
      then
        (if UMM_NBLOCK cfg m cur AND UMM_FREELIST_MASK cfg = 0
         then
           (case check_poison_block cfg m (UMM_BLOCK cfg cur) of
              (ok, lg') \<Rightarrow>
                if \<not> ok then Some (False, calls @ [cur], lg @ lg')
                else poison_check_loop cfg m (UMM_NBLOCK cfg m cur AND UMM_BLOCKNO_MASK cfg)
                       (calls @ [cur]) (lg @ lg'))
         else poison_check_loop cfg m (UMM_NBLOCK cfg m cur AND UMM_BLOCKNO_MASK cfg) calls lg)
      else Some (True, calls, lg))"

declare poison_check_loop.simps [code]

text \<open>
  \<^verbatim>\<open>umm_poison_check\<close> on an initialised heap (\<^verbatim>\<open>UMM_CHECK_INITIALIZED\<close> does nothing
  there); the critical section has no effect on a single thread.
\<close>

definition umm_poison_check ::
  "'a::len word umm_config \<Rightarrow> 'a memory
     \<Rightarrow> (bool \<times> 16 word list \<times> 'a word log_msg list) option" where
  "umm_poison_check cfg m =
     poison_check_loop cfg m (UMM_NBLOCK cfg m 0 AND UMM_BLOCKNO_MASK cfg) [] []"

section \<open>Notions used by the properties\<close>

text \<open>The \<open>n\<close> bytes from \<open>ptr\<close> all hold the sentinel byte.\<close>

definition poisoned :: "'a::len memory \<Rightarrow> 'a word \<Rightarrow> nat \<Rightarrow> bool" where
  "poisoned m ptr n = list_all (\<lambda>i. m (ptr + of_nat i) = POISON_BYTE) [0..<n]"

text \<open>The \<open>n\<close> bytes from \<open>ptr\<close> are all zero.\<close>

definition zeroed :: "'a::len memory \<Rightarrow> 'a word \<Rightarrow> nat \<Rightarrow> bool" where
  "zeroed m ptr n = list_all (\<lambda>i. m (ptr + of_nat i) = 0) [0..<n]"

text \<open>Address \<open>a\<close> is one of the \<open>n\<close> bytes from \<open>ptr\<close>.\<close>

definition in_region :: "'a::len word \<Rightarrow> 'a word \<Rightarrow> nat \<Rightarrow> bool" where
  "in_region a ptr n = list_ex (\<lambda>i. a = ptr + of_nat i) [0..<n]"

text \<open>
  Both guards of the block at \<open>pblock\<close> are intact, the post-guard being where the
  block's own length field puts it.
\<close>

definition guards_intact :: "'a::len word umm_config \<Rightarrow> 'a memory \<Rightarrow> 'a word \<Rightarrow> bool" where
  "guards_intact cfg m pblock =
     (let pc = body_data cfg pblock
      in poisoned m (pc + of_nat (LEN_TYPE_SIZE cfg)) (UMM_POISON_SIZE_BEFORE cfg) \<and>
         poisoned m (pc + of_nat (load_uint cfg m pc (LEN_TYPE_SIZE cfg))
                        - of_nat (UMM_POISON_SIZE_AFTER cfg)) (UMM_POISON_SIZE_AFTER cfg))"

definition block_used :: "'a::len word umm_config \<Rightarrow> 'a memory \<Rightarrow> 16 word \<Rightarrow> bool" where
  "block_used cfg m c \<longleftrightarrow> UMM_NBLOCK cfg m c AND UMM_FREELIST_MASK cfg = 0"

definition next_index :: "'a::len word umm_config \<Rightarrow> 'a memory \<Rightarrow> 16 word \<Rightarrow> 16 word" where
  "next_index cfg m c = UMM_NBLOCK cfg m c AND UMM_BLOCKNO_MASK cfg"

text \<open>
  \<open>scan_prefix cfg m cur bs\<close>: from \<open>cur\<close> the loop of the scan runs its body on the
  blocks \<open>bs\<close>, one after the other. \<open>scan_last\<close> is the block it stands on after them,
  and \<open>scan_path\<close> says that the loop ends there: that block's masked link is 0.
\<close>

primrec scan_prefix :: "'a::len word umm_config \<Rightarrow> 'a memory \<Rightarrow> 16 word \<Rightarrow> 16 word list \<Rightarrow> bool" where
  "scan_prefix cfg m cur [] = True"
| "scan_prefix cfg m cur (b # bs) =
     (b = cur \<and> next_index cfg m cur \<noteq> 0 \<and> scan_prefix cfg m (next_index cfg m cur) bs)"

primrec scan_last :: "'a::len word umm_config \<Rightarrow> 'a memory \<Rightarrow> 16 word \<Rightarrow> 16 word list \<Rightarrow> 16 word" where
  "scan_last cfg m cur [] = cur"
| "scan_last cfg m cur (b # bs) = scan_last cfg m (next_index cfg m b) bs"

definition scan_path :: "'a::len word umm_config \<Rightarrow> 'a memory \<Rightarrow> 16 word \<Rightarrow> 16 word list \<Rightarrow> bool" where
  "scan_path cfg m cur bs \<longleftrightarrow>
     scan_prefix cfg m cur bs \<and> next_index cfg m (scan_last cfg m cur bs) = 0"

text \<open>
  A live allocation of \<open>s\<close> user bytes in the block at \<open>pblock\<close>, as \<^verbatim>\<open>get_poisoned\<close>
  leaves it: the block is tagged used, its length field holds the inflated size cast to
  the field's type, the pre-guard behind the length field and the post-guard that ends
  at the end of the region hold the sentinel byte, the link field lies before the body
  and the region does not wrap around the address space.
\<close>

definition poisoned_block :: "'a::len word umm_config \<Rightarrow> 'a memory \<Rightarrow> 'a word \<Rightarrow> nat \<Rightarrow> bool" where
  "poisoned_block cfg m pblock s =
     (let total = LEN_TYPE_SIZE cfg + UMM_POISON_SIZE_BEFORE cfg + s + UMM_POISON_SIZE_AFTER cfg;
          pc = body_data cfg pblock
      in block_next cfg m pblock AND UMM_FREELIST_MASK cfg = 0 \<and>
         load_uint cfg m pc (LEN_TYPE_SIZE cfg) = total mod 256 ^ LEN_TYPE_SIZE cfg \<and>
         poisoned m (pc + of_nat (LEN_TYPE_SIZE cfg)) (UMM_POISON_SIZE_BEFORE cfg) \<and>
         poisoned m (pc + of_nat (LEN_TYPE_SIZE cfg + UMM_POISON_SIZE_BEFORE cfg + s))
           (UMM_POISON_SIZE_AFTER cfg) \<and>
         2 \<le> BODY_OFFSET cfg \<and>
         BODY_OFFSET cfg + total \<le> 2 ^ LENGTH('a))"

section \<open>A concrete configuration and heap\<close>

text \<open>
  The default configuration on a 32-bit little-endian target: guards of 4 bytes, a 16-bit
  length field, blocks of 8 bytes with a 4-byte header, the heap at address \<open>0x1000\<close>.
\<close>

definition example_cfg :: "32 word umm_config" where
  "example_cfg = \<lparr> UMM_POISON_SIZE_BEFORE = 4, UMM_POISON_SIZE_AFTER = 4, LEN_TYPE_SIZE = 2,
     UMM_BLOCKSIZE = 8, UMM_FREELIST_MASK = 0x8000, UMM_BLOCKNO_MASK = 0x7FFF,
     UMM_HEAP = 0x1000, BODY_OFFSET = 4, BIG_ENDIAN = False \<rparr>"

definition bytes_at :: "'a::len word \<Rightarrow> byte list \<Rightarrow> 'a memory" where
  "bytes_at base bs = (\<lambda>a. if unat (a - base) < length bs then bs ! unat (a - base) else 0)"

text \<open>
  Seven blocks: block 0 is the list head; blocks 1 and 4 (two blocks long each) hold live
  allocations of one user byte, block 3 is free, block 6 is the last block, whose link
  is 0.
\<close>

definition example_heap :: "32 memory" where
  "example_heap = bytes_at 0x1000
     [0x01, 0x00, 0x00, 0x00, 0x03, 0x00, 0x03, 0x00,
      0x03, 0x00, 0x00, 0x00, 0x0B, 0x00, 0xA5, 0xA5,
      0xA5, 0xA5, 0x00, 0xA5, 0xA5, 0xA5, 0xA5, 0x00,
      0x04, 0x80, 0x01, 0x00, 0x00, 0x00, 0x00, 0x00,
      0x06, 0x00, 0x03, 0x00, 0x0B, 0x00, 0xA5, 0xA5,
      0xA5, 0xA5, 0x2A, 0xA5, 0xA5, 0xA5, 0xA5, 0x00,
      0x00, 0x00, 0x04, 0x00, 0x00, 0x00, 0x00, 0x00]"

text \<open>
  An allocator whose allocation and resize always hand out the address \<open>0x2000\<close> and
  leave memory alone.
\<close>

definition example_malloc :: "32 malloc_fn" where
  "example_malloc sz m = (0x2000, m)"

definition example_realloc :: "32 realloc_fn" where
  "example_realloc ptr sz m = (0x2000, m)"

text \<open>
  A heap whose block 1 holds one allocation of \<open>0x10000\<close> user bytes, made by
  \<^verbatim>\<open>umm_poison_malloc\<close> from an allocator that hands out the body of block 1: block 0
  links to block 1, block 1 to block \<open>0x2003\<close>, the first block behind the region, whose
  link is 0. Every other byte, the user's bytes among them, holds \<open>0xA5\<close>.
\<close>

definition block1_malloc :: "32 malloc_fn" where
  "block1_malloc sz m = (0x100C, m)"

definition large_heap_base :: "32 memory" where
  "large_heap_base = (\<lambda>_. 0xA5)
     (0x1000 := 0x01, 0x1001 := 0x00, 0x1008 := 0x03, 0x1009 := 0x20,
      0x11018 := 0x00, 0x11019 := 0x00)"

definition large_heap :: "32 memory" where
  "large_heap = snd (umm_poison_malloc example_cfg block1_malloc large_heap_base 0x10000)"

section \<open>Memory lemmas\<close>

lemma fold_upd_const:
  "fold (\<lambda>i m'. m'(f i := c)) [0..<k] m a = (if \<exists>i<k. a = f i then c else m a)"
  by (induction k) (auto simp: less_Suc_eq)

lemma memset_apply:
  "memset m p c n a = (if \<exists>i<unat n. a = p + of_nat i then c else m a)"
  unfolding memset_def by (rule fold_upd_const)

lemma word_le_inc_iff:
  fixes i j n :: "'a::len word"
  assumes "i < n"
  shows "i \<le> j \<longleftrightarrow> j = i \<or> i + 1 \<le> j"
  using assms inc_less_eq_iff by fastforce

lemma check_poison_loop_iff:
  "check_poison_loop m ptr n i \<longleftrightarrow> (\<forall>j. i \<le> j \<and> j < n \<longrightarrow> m (ptr + j) = POISON_BYTE)"
proof (induction m ptr n i rule: check_poison_loop.induct)
  case (1 m ptr psize i)
  show ?case
  proof (cases "i < psize")
    case False
    then show ?thesis
      by (subst check_poison_loop.simps) auto
  next
    case lt: True
    show ?thesis
    proof (cases "m (ptr + i) = POISON_BYTE")
      case False
      with lt show ?thesis
        by (subst check_poison_loop.simps) auto
    next
      case True
      with lt have "check_poison_loop m ptr psize i = check_poison_loop m ptr psize (i + 1)"
        by (subst check_poison_loop.simps) simp
      also have "\<dots> \<longleftrightarrow> (\<forall>j. i + 1 \<le> j \<and> j < psize \<longrightarrow> m (ptr + j) = POISON_BYTE)"
        using "1.IH" lt True by simp
      also have "\<dots> \<longleftrightarrow> (\<forall>j. i \<le> j \<and> j < psize \<longrightarrow> m (ptr + j) = POISON_BYTE)"
        using True word_le_inc_iff [OF lt] by metis
      finally show ?thesis .
    qed
  qed
qed

lemma check_poison_loop_0:
  "check_poison_loop m ptr n 0 \<longleftrightarrow> (\<forall>k<unat n. m (ptr + of_nat k) = POISON_BYTE)"
proof
  assume loop: "check_poison_loop m ptr n 0"
  show "\<forall>k<unat n. m (ptr + of_nat k) = POISON_BYTE"
  proof (intro allI impI)
    fix k assume k: "k < unat n"
    then have "unat (of_nat k :: 'a word) = k"
      by (intro le_unat_uoi [of k n]) simp
    with k have "(of_nat k :: 'a word) < n"
      by (simp add: word_less_nat_alt)
    with loop show "m (ptr + of_nat k) = POISON_BYTE"
      by (simp add: check_poison_loop_iff)
  qed
next
  assume bytes: "\<forall>k<unat n. m (ptr + of_nat k) = POISON_BYTE"
  have "m (ptr + j) = POISON_BYTE" if "j < n" for j
  proof -
    from that have "unat j < unat n"
      by (simp add: word_less_nat_alt)
    with bytes have "m (ptr + of_nat (unat j)) = POISON_BYTE"
      by blast
    then show ?thesis by simp
  qed
  then show "check_poison_loop m ptr n 0"
    by (simp add: check_poison_loop_iff)
qed

lemma of_nat_word_inj:
  assumes "x < 2 ^ LENGTH('a::len)" "y < 2 ^ LENGTH('a)"
  shows "(of_nat x :: 'a word) = of_nat y \<longleftrightarrow> x = y"
  using assms by (simp add: word_of_nat_eq_iff take_bit_nat_eq_self)

lemma byte_pos_less: "i < k \<Longrightarrow> byte_pos cfg k i < k"
  by (simp add: byte_pos_def)

lemma byte_pos_inj: "i < k \<Longrightarrow> j < k \<Longrightarrow> byte_pos cfg k i = byte_pos cfg k j \<Longrightarrow> i = j"
  by (auto simp: byte_pos_def split: if_splits)

lemma fold_upd_other:
  "(\<forall>i<n. a \<noteq> f i) \<Longrightarrow> fold (\<lambda>i m'. m'(f i := g i)) [0..<n] m a = m a"
  by (induction n) (auto simp: less_Suc_eq)

lemma fold_upd_at:
  "i < n \<Longrightarrow> (\<forall>j<n. f j = f i \<longrightarrow> j = i)
     \<Longrightarrow> fold (\<lambda>i m'. m'(f i := g i)) [0..<n] m (f i) = g i"
proof (induction n)
  case 0
  then show ?case by simp
next
  case (Suc n)
  show ?case
  proof (cases "i = n")
    case True
    then show ?thesis by simp
  next
    case False
    with Suc.prems have "i < n" "f n \<noteq> f i" by auto
    with Suc show ?thesis by simp
  qed
qed

lemma field_addr_inj:
  assumes "k \<le> 2 ^ LENGTH('a::len)" "i < k" "j < k"
  shows "(of_nat (byte_pos cfg k i) :: 'a word) = of_nat (byte_pos cfg k j) \<longleftrightarrow> i = j"
proof -
  have "byte_pos cfg k i < 2 ^ LENGTH('a)" "byte_pos cfg k j < 2 ^ LENGTH('a)"
    using assms byte_pos_less [of i k cfg] byte_pos_less [of j k cfg] by simp_all
  then have "(of_nat (byte_pos cfg k i) :: 'a word) = of_nat (byte_pos cfg k j)
      \<longleftrightarrow> byte_pos cfg k i = byte_pos cfg k j"
    by (rule of_nat_word_inj)
  with assms show ?thesis
    by (auto dest: byte_pos_inj)
qed

lemma store_uint_at:
  fixes p :: "'a::len word"
  assumes "k \<le> 2 ^ LENGTH('a)" "i < k"
  shows "store_uint cfg m p k v (p + of_nat (byte_pos cfg k i)) = of_nat (v div 256 ^ i)"
  unfolding store_uint_def
  using assms by (intro fold_upd_at) (auto simp: field_addr_inj)

lemma store_uint_other:
  "(\<forall>i<k. a \<noteq> p + of_nat i) \<Longrightarrow> store_uint cfg m p k v a = m a"
  unfolding store_uint_def
  by (rule fold_upd_other) (auto dest: byte_pos_less)

lemma digits_sum:
  "(\<Sum>i\<leftarrow>[0..<k]. (v div 256 ^ i mod 256) * 256 ^ i) = (v::nat) mod 256 ^ k"
proof (induction k)
  case 0
  then show ?case by simp
next
  case (Suc k)
  have "v mod (256 ^ k * 256) = 256 ^ k * (v div 256 ^ k mod 256) + v mod 256 ^ k"
    by (rule mod_mult2_eq)
  with Suc show ?case by (simp add: mult.commute)
qed

lemma unat_of_nat_byte: "unat (of_nat n :: byte) = n mod 256"
  by (simp add: unat_of_nat)

lemma load_store_uint:
  fixes p :: "'a::len word"
  assumes "k \<le> 2 ^ LENGTH('a)"
  shows "load_uint cfg (store_uint cfg m p k v) p k = v mod 256 ^ k"
proof -
  have "load_uint cfg (store_uint cfg m p k v) p k
      = (\<Sum>i\<leftarrow>[0..<k]. (v div 256 ^ i mod 256) * 256 ^ i)"
    unfolding load_uint_def
    by (rule arg_cong [where f = sum_list], rule map_cong)
       (simp_all add: store_uint_at [OF assms] unat_of_nat_byte)
  then show ?thesis by (simp add: digits_sum)
qed

lemma load_uint_cong:
  "(\<forall>i<k. m (p + of_nat i) = m' (p + of_nat i)) \<Longrightarrow> load_uint cfg m p k = load_uint cfg m' p k"
  unfolding load_uint_def
  by (rule arg_cong [where f = sum_list], rule map_cong) (simp_all add: byte_pos_less)

section \<open>Evaluating the model on concrete memory\<close>

lemma upt_0_numeral: "[0..<numeral n] = 0 # [Suc 0..<numeral n]"
  by (simp add: upt_rec)

lemma upt_Suc_numeral:
  "[Suc k..<numeral n] = (if Suc k < numeral n then Suc k # [Suc (Suc k)..<numeral n] else [])"
  by (simp add: upt_rec)

lemmas eval_simps = upt_0_numeral upt_Suc_numeral
  example_cfg_def example_heap_def bytes_at_def byte_pos_def
  UMM_NBLOCK_def block_next_def load_uint_def UMM_BLOCK_def body_data_def
  check_poison_block_def check_poison_def check_poison_loop.simps dump_mem_def
  POISON_BYTE_def Let_def next_index_def block_used_def scan_path_def
  guards_intact_def poisoned_def poisoned_block_def

section \<open>The size of the poison\<close>

text \<open>
  C6. \<^verbatim>\<open>poison_size\<close> returns 0 for the size 0, and for every other size the one constant
  length-field size + pre-guard size + post-guard size (as a \<^verbatim>\<open>size_t\<close>), whatever the
  size is. It is a total function of its argument and the configuration alone: it reads
  and writes no memory and has no failing case.
\<close>

theorem poison_size_geometry:
  "poison_size cfg 0 = 0 \<and>
   (s \<noteq> 0 \<longrightarrow> poison_size cfg s =
      of_nat (LEN_TYPE_SIZE cfg + UMM_POISON_SIZE_BEFORE cfg + UMM_POISON_SIZE_AFTER cfg))"
  by (simp add: poison_size_def)

theorem poison_size_geometry_witness:
  "(10 :: 32 word) \<noteq> 0 \<and> poison_size example_cfg 0 = 0 \<and> poison_size example_cfg 10 = 10
   \<and> poison_size example_cfg 1000 = 10"
  using poison_size_geometry [of example_cfg 10] poison_size_geometry [of example_cfg 1000]
  by (simp add: example_cfg_def)

section \<open>Checking a free block\<close>

text \<open>
  C7. When the free-tag bit of the block's link is set, \<^verbatim>\<open>check_poison_block\<close> logs the
  usage error and returns true (it does not report corruption). No guard byte is
  examined: the result is the same in every memory in which the block has this link.
\<close>

theorem check_poison_block_free:
  "block_next cfg m pblock AND UMM_FREELIST_MASK cfg \<noteq> 0 \<Longrightarrow>
     check_poison_block cfg m pblock = (True, [Log_free_block pblock]) \<and>
     (block_next cfg m' pblock = block_next cfg m pblock \<longrightarrow>
        check_poison_block cfg m' pblock = check_poison_block cfg m pblock)"
  by (simp add: check_poison_block_def)

theorem check_poison_block_free_witness:
  "block_next example_cfg example_heap 0x1018 AND UMM_FREELIST_MASK example_cfg \<noteq> 0 \<and>
   \<not> guards_intact example_cfg example_heap 0x1018 \<and>
   check_poison_block example_cfg example_heap 0x1018 = (True, [Log_free_block 0x1018])"
proof -
  have free: "block_next example_cfg example_heap 0x1018 AND UMM_FREELIST_MASK example_cfg \<noteq> 0"
    by (simp add: eval_simps)
  have "\<not> guards_intact example_cfg example_heap 0x1018"
    by (simp add: eval_simps)
  with free check_poison_block_free [OF free] show ?thesis
    by simp
qed

section \<open>From the user pointer back to the raw pointer\<close>

text \<open>
  C5. For a non-null user pointer \<^verbatim>\<open>get_unpoisoned\<close> returns the pointer minus
  (length-field size + pre-guard size); for the null pointer it returns null and checks
  nothing. The returned pointer is the same whatever the memory holds, so a failed check
  of the guards changes nothing but the log, and \<^verbatim>\<open>umm_poison_free\<close> passes that
  pointer to the allocator's release, and \<^verbatim>\<open>umm_poison_realloc\<close> to the allocator's
  resize, in every case.
\<close>

theorem get_unpoisoned_fail_open:
  "(ptr \<noteq> 0 \<longrightarrow>
      fst (get_unpoisoned cfg m ptr)
        = ptr - (of_nat (LEN_TYPE_SIZE cfg) + of_nat (UMM_POISON_SIZE_BEFORE cfg))) \<and>
   get_unpoisoned cfg m 0 = (0, []) \<and>
   fst (get_unpoisoned cfg m' ptr) = fst (get_unpoisoned cfg m ptr) \<and>
   umm_poison_free cfg umm_free m ptr
     = (umm_free (fst (get_unpoisoned cfg m ptr)) m, snd (get_unpoisoned cfg m ptr)) \<and>
   umm_poison_realloc cfg umm_realloc m ptr sz
     = (let r = umm_realloc (fst (get_unpoisoned cfg m ptr)) (sz + poison_size cfg sz) m;
            p = get_poisoned cfg (snd r) (fst r) (sz + poison_size cfg sz)
        in (fst p, snd p, snd (get_unpoisoned cfg m ptr)))"
  by (simp add: get_unpoisoned_def umm_poison_free_def umm_poison_realloc_def Let_def
      split: prod.split)

theorem get_unpoisoned_fail_open_witness:
  "(0x102A :: 32 word) \<noteq> 0 \<and>
   get_unpoisoned example_cfg (example_heap(0x102E := 0)) 0x102A
     = (0x1024, [Log_no_poison ''after'' 0x102B, Log_byte 0xA5, Log_byte 0xA5, Log_byte 0xA5,
          Log_byte 0, Log_newline]) \<and>
   fst (get_unpoisoned example_cfg example_heap 0x102A) = 0x1024"
proof -
  have "get_unpoisoned example_cfg (example_heap(0x102E := 0)) 0x102A
     = (0x1024, [Log_no_poison ''after'' 0x102B, Log_byte 0xA5, Log_byte 0xA5, Log_byte 0xA5,
          Log_byte 0, Log_newline])"
    by (simp add: get_unpoisoned_def eval_simps)
  then show ?thesis
    using get_unpoisoned_fail_open
      [of "0x102A" example_cfg "example_heap(0x102E := 0)" example_heap]
    by simp
qed

section \<open>Resizing to size 0\<close>

text \<open>
  C10. For a non-null user pointer \<open>ptr\<close>, \<^verbatim>\<open>umm_poison_realloc(ptr, 0)\<close> translates
  \<open>ptr\<close> to the raw pointer, logs what the check of that block finds, calls the
  allocator's resize with the raw pointer and size 0, and returns the allocator's pointer
  and memory as they are: nothing is written and no offset is added.
\<close>

theorem umm_poison_realloc_zero:
  "ptr \<noteq> 0 \<Longrightarrow>
     umm_poison_realloc cfg umm_realloc m ptr 0 =
       (let raw = ptr - (of_nat (LEN_TYPE_SIZE cfg) + of_nat (UMM_POISON_SIZE_BEFORE cfg));
            c = (ucast ((raw - UMM_HEAP cfg) div of_nat (UMM_BLOCKSIZE cfg)) :: 16 word)
        in (fst (umm_realloc raw 0 m), snd (umm_realloc raw 0 m),
            snd (check_poison_block cfg m (UMM_BLOCK cfg c))))"
  by (simp add: umm_poison_realloc_def get_unpoisoned_def get_poisoned_def poison_size_def
      Let_def split: prod.split)

theorem umm_poison_realloc_zero_witness:
  "(0x102A :: 32 word) \<noteq> 0 \<and>
   umm_poison_realloc example_cfg example_realloc (example_heap(0x102E := 0)) 0x102A 0 =
     (0x2000, example_heap(0x102E := 0),
      [Log_no_poison ''after'' 0x102B, Log_byte 0xA5, Log_byte 0xA5, Log_byte 0xA5,
       Log_byte 0, Log_newline])"
proof -
  have "snd (check_poison_block example_cfg (example_heap(0x102E := 0)) 0x1020)
      = [Log_no_poison ''after'' 0x102B, Log_byte 0xA5, Log_byte 0xA5, Log_byte 0xA5,
         Log_byte 0, Log_newline]"
    by (simp add: eval_simps)
  then show ?thesis
    using umm_poison_realloc_zero
      [of "0x102A" example_cfg example_realloc "example_heap(0x102E := 0)"]
    by (simp add: Let_def example_realloc_def example_cfg_def UMM_BLOCK_def)
qed

section \<open>The heap scan: what it checks and when it stops\<close>

lemma loop_end:
  "next_index cfg m cur = 0 \<Longrightarrow> poison_check_loop cfg m cur calls lg = Some (True, calls, lg)"
  by (subst poison_check_loop.simps) (simp add: next_index_def)

lemma loop_free:
  "next_index cfg m cur \<noteq> 0 \<Longrightarrow> \<not> block_used cfg m cur \<Longrightarrow>
     poison_check_loop cfg m cur calls lg
       = poison_check_loop cfg m (next_index cfg m cur) calls lg"
  by (subst poison_check_loop.simps) (simp add: next_index_def block_used_def)

lemma loop_used_ok:
  "next_index cfg m cur \<noteq> 0 \<Longrightarrow> block_used cfg m cur \<Longrightarrow>
   fst (check_poison_block cfg m (UMM_BLOCK cfg cur)) \<Longrightarrow>
     poison_check_loop cfg m cur calls lg
       = poison_check_loop cfg m (next_index cfg m cur) (calls @ [cur])
           (lg @ snd (check_poison_block cfg m (UMM_BLOCK cfg cur)))"
  by (subst poison_check_loop.simps, cases "check_poison_block cfg m (UMM_BLOCK cfg cur)")
     (simp add: next_index_def block_used_def)

lemma loop_used_fail:
  "next_index cfg m cur \<noteq> 0 \<Longrightarrow> block_used cfg m cur \<Longrightarrow>
   \<not> fst (check_poison_block cfg m (UMM_BLOCK cfg cur)) \<Longrightarrow>
     poison_check_loop cfg m cur calls lg
       = Some (False, calls @ [cur], lg @ snd (check_poison_block cfg m (UMM_BLOCK cfg cur)))"
  by (subst poison_check_loop.simps, cases "check_poison_block cfg m (UMM_BLOCK cfg cur)")
     (simp add: next_index_def block_used_def)

lemma scan_path_Cons:
  "scan_path cfg m cur (b # bs) \<longleftrightarrow>
     b = cur \<and> next_index cfg m cur \<noteq> 0 \<and> scan_path cfg m (next_index cfg m cur) bs"
  by (auto simp: scan_path_def)

lemma scan_path_Nil: "scan_path cfg m cur [] \<longleftrightarrow> next_index cfg m cur = 0"
  by (simp add: scan_path_def)

lemma check_poison_poisoned:
  assumes "poisoned m ptr n"
  shows "check_poison m ptr (of_nat n) w = (True, [])"
proof -
  have "unat (of_nat n :: 'a word) \<le> n"
    by (simp add: unat_of_nat)
  with assms have "check_poison_loop m ptr (of_nat n) 0"
    by (auto simp: check_poison_loop_0 poisoned_def list_all_iff)
  then show ?thesis
    by (simp add: check_poison_def)
qed

lemma check_poison_block_intact:
  "block_next cfg m pblock AND UMM_FREELIST_MASK cfg = 0 \<Longrightarrow> guards_intact cfg m pblock \<Longrightarrow>
     check_poison_block cfg m pblock = (True, [])"
  by (simp add: check_poison_block_def guards_intact_def Let_def check_poison_poisoned)

lemma check_poison_log_ok: "fst (check_poison m ptr n w) \<Longrightarrow> snd (check_poison m ptr n w) = []"
  by (simp add: check_poison_def Let_def)

lemma check_poison_block_log_ok:
  "block_next cfg m pblock AND UMM_FREELIST_MASK cfg = 0 \<Longrightarrow>
   fst (check_poison_block cfg m pblock) \<Longrightarrow> snd (check_poison_block cfg m pblock) = []"
  by (auto simp: check_poison_block_def Let_def check_poison_def split: prod.splits if_splits)

lemma scan_pass:
  "scan_path cfg m cur bs \<Longrightarrow>
   (\<forall>b\<in>set bs. block_used cfg m b \<longrightarrow> check_poison_block cfg m (UMM_BLOCK cfg b) = (True, [])) \<Longrightarrow>
     poison_check_loop cfg m cur calls lg
       = Some (True, calls @ filter (block_used cfg m) bs, lg)"
proof (induction bs arbitrary: cur calls lg)
  case Nil
  then show ?case by (simp add: scan_path_Nil loop_end)
next
  case (Cons b bs)
  then have b: "b = cur" and nz: "next_index cfg m cur \<noteq> 0"
    and rest: "scan_path cfg m (next_index cfg m cur) bs"
    by (simp_all add: scan_path_Cons)
  show ?case
  proof (cases "block_used cfg m cur")
    case True
    with Cons.prems b have ok: "check_poison_block cfg m (UMM_BLOCK cfg cur) = (True, [])"
      by simp
    with nz True have "poison_check_loop cfg m cur calls lg
        = poison_check_loop cfg m (next_index cfg m cur) (calls @ [cur]) lg"
      by (simp add: loop_used_ok)
    with Cons.IH [OF rest] Cons.prems True b show ?thesis by simp
  next
    case False
    with nz have "poison_check_loop cfg m cur calls lg
        = poison_check_loop cfg m (next_index cfg m cur) calls lg"
      by (simp add: loop_free)
    with Cons.IH [OF rest] Cons.prems False b show ?thesis by simp
  qed
qed

lemma scan_fail:
  "scan_prefix cfg m cur (bs @ [c]) \<Longrightarrow>
   (\<forall>b\<in>set bs. block_used cfg m b \<longrightarrow> check_poison_block cfg m (UMM_BLOCK cfg b) = (True, [])) \<Longrightarrow>
   block_used cfg m c \<Longrightarrow> \<not> fst (check_poison_block cfg m (UMM_BLOCK cfg c)) \<Longrightarrow>
     poison_check_loop cfg m cur calls lg
       = Some (False, calls @ filter (block_used cfg m) bs @ [c],
               lg @ snd (check_poison_block cfg m (UMM_BLOCK cfg c)))"
proof (induction bs arbitrary: cur calls lg)
  case Nil
  then show ?case by (simp add: loop_used_fail)
next
  case (Cons b bs)
  then have b: "b = cur" and nz: "next_index cfg m cur \<noteq> 0"
    and rest: "scan_prefix cfg m (next_index cfg m cur) (bs @ [c])"
    by simp_all
  show ?case
  proof (cases "block_used cfg m cur")
    case True
    with Cons.prems b have ok: "check_poison_block cfg m (UMM_BLOCK cfg cur) = (True, [])"
      by simp
    with nz True have "poison_check_loop cfg m cur calls lg
        = poison_check_loop cfg m (next_index cfg m cur) (calls @ [cur]) lg"
      by (simp add: loop_used_ok)
    with Cons.IH [OF rest] Cons.prems True b show ?thesis by simp
  next
    case False
    with nz have "poison_check_loop cfg m cur calls lg
        = poison_check_loop cfg m (next_index cfg m cur) calls lg"
      by (simp add: loop_free)
    with Cons.IH [OF rest] Cons.prems False b show ?thesis by simp
  qed
qed


lemma scan_total:
  "scan_path cfg m cur bs \<Longrightarrow> \<exists>r. poison_check_loop cfg m cur calls lg = Some r"
proof (induction bs arbitrary: cur calls lg)
  case Nil
  then show ?case by (auto simp: scan_path_Nil loop_end)
next
  case (Cons b bs)
  then have nz: "next_index cfg m cur \<noteq> 0"
    and rest: "scan_path cfg m (next_index cfg m cur) bs"
    by (simp_all add: scan_path_Cons)
  show ?case
  proof (cases "block_used cfg m cur")
    case False
    with nz Cons.IH [OF rest] show ?thesis by (simp add: loop_free)
  next
    case True
    show ?thesis
    proof (cases "fst (check_poison_block cfg m (UMM_BLOCK cfg cur))")
      case True
      with nz \<open>block_used cfg m cur\<close> Cons.IH [OF rest] show ?thesis
        by (simp add: loop_used_ok)
    next
      case False
      with nz True show ?thesis by (auto simp: loop_used_fail)
    qed
  qed
qed

lemma loop_calls_nonterminal:
  assumes "poison_check_loop cfg m cur calls lg = Some r"
  shows "(\<forall>c\<in>set calls. next_index cfg m c \<noteq> 0) \<longrightarrow>
     (\<forall>c\<in>set (fst (snd r)). next_index cfg m c \<noteq> 0)"
proof (rule poison_check_loop.raw_induct
    [where P = "\<lambda>cfg m cur calls lg r. (\<forall>c\<in>set calls. next_index cfg m c \<noteq> 0) \<longrightarrow>
       (\<forall>c\<in>set (fst (snd r)). next_index cfg m c \<noteq> 0)", OF _ assms], goal_cases)
  case (1 loop cfg m cur calls lg r)
  note IH = "1"(1) and eq = "1"(2)
  show ?case
  proof (cases "next_index cfg m cur = 0")
    case True
    with eq have "r = (True, calls, lg)"
      by (simp add: next_index_def)
    then show ?thesis by simp
  next
    case nz: False
    show ?thesis
    proof (cases "block_used cfg m cur")
      case False
      with nz eq have "loop cfg m (next_index cfg m cur) calls lg = Some r"
        by (simp add: next_index_def block_used_def)
      from IH [OF this] show ?thesis .
    next
      case True
      obtain ok lg' where cpb: "check_poison_block cfg m (UMM_BLOCK cfg cur) = (ok, lg')"
        by (cases "check_poison_block cfg m (UMM_BLOCK cfg cur)")
      show ?thesis
      proof (cases ok)
        case False
        with nz True cpb eq have "r = (False, calls @ [cur], lg @ lg')"
          by (simp add: next_index_def block_used_def)
        with nz show ?thesis by simp
      next
        case ok: True
        with nz True cpb eq
        have "loop cfg m (next_index cfg m cur) (calls @ [cur]) (lg @ lg') = Some r"
          by (simp add: next_index_def block_used_def)
        from IH [OF this] nz show ?thesis by simp
      qed
    qed
  qed
qed


lemma scan_path_last: "scan_path cfg m cur bs \<Longrightarrow> next_index cfg m (scan_last cfg m cur bs) = 0"
  by (simp add: scan_path_def)

lemma umm_poison_check_loop:
  "umm_poison_check cfg m = poison_check_loop cfg m (next_index cfg m 0) [] []"
  by (simp add: umm_poison_check_def next_index_def)

lemma block_used_next:
  "block_used cfg m c \<longleftrightarrow> block_next cfg m (UMM_BLOCK cfg c) AND UMM_FREELIST_MASK cfg = 0"
  by (simp add: block_used_def UMM_NBLOCK_def)

text \<open>
  C1. The scan starts at the successor of block 0 and follows the masked links. When the
  links lead through the blocks \<open>bs\<close> to a block whose masked link is 0, and every block
  of \<open>bs\<close> tagged used has intact guards, \<^verbatim>\<open>umm_poison_check\<close> returns true; the blocks
  it has checked are the used blocks of \<open>bs\<close>, in successor order, the free ones being
  skipped. When instead the used block \<open>c\<close> fails its check after the blocks \<open>bs\<close> whose
  used ones pass, the scan returns false at once: \<open>c\<close> is the last block checked, the
  log ends with the report on \<open>c\<close>, and nothing behind \<open>c\<close> is looked at (no
  assumption is made on what follows \<open>c\<close>).
\<close>

theorem umm_poison_check_scan:
  "(scan_path cfg m (next_index cfg m 0) bs \<and>
      (\<forall>b\<in>set bs. block_used cfg m b \<longrightarrow> guards_intact cfg m (UMM_BLOCK cfg b))
     \<longrightarrow> umm_poison_check cfg m = Some (True, filter (block_used cfg m) bs, [])) \<and>
   (scan_prefix cfg m (next_index cfg m 0) (bs @ [c]) \<and>
      (\<forall>b\<in>set bs. block_used cfg m b \<longrightarrow> fst (check_poison_block cfg m (UMM_BLOCK cfg b))) \<and>
      block_used cfg m c \<and> \<not> fst (check_poison_block cfg m (UMM_BLOCK cfg c))
     \<longrightarrow> umm_poison_check cfg m
           = Some (False, filter (block_used cfg m) bs @ [c],
                   snd (check_poison_block cfg m (UMM_BLOCK cfg c))))"
proof (intro conjI impI)
  assume "scan_path cfg m (next_index cfg m 0) bs \<and>
      (\<forall>b\<in>set bs. block_used cfg m b \<longrightarrow> guards_intact cfg m (UMM_BLOCK cfg b))"
  then have path: "scan_path cfg m (next_index cfg m 0) bs"
    and "\<forall>b\<in>set bs. block_used cfg m b \<longrightarrow> check_poison_block cfg m (UMM_BLOCK cfg b) = (True, [])"
    by (simp_all add: block_used_next check_poison_block_intact)
  then show "umm_poison_check cfg m = Some (True, filter (block_used cfg m) bs, [])"
    by (simp add: umm_poison_check_loop scan_pass)
next
  assume "scan_prefix cfg m (next_index cfg m 0) (bs @ [c]) \<and>
      (\<forall>b\<in>set bs. block_used cfg m b \<longrightarrow> fst (check_poison_block cfg m (UMM_BLOCK cfg b))) \<and>
      block_used cfg m c \<and> \<not> fst (check_poison_block cfg m (UMM_BLOCK cfg c))"
  then have pre: "scan_prefix cfg m (next_index cfg m 0) (bs @ [c])"
    and ok: "\<forall>b\<in>set bs. block_used cfg m b \<longrightarrow> fst (check_poison_block cfg m (UMM_BLOCK cfg b))"
    and c: "block_used cfg m c" "\<not> fst (check_poison_block cfg m (UMM_BLOCK cfg c))"
    by simp_all
  from ok have "\<forall>b\<in>set bs. block_used cfg m b \<longrightarrow>
      check_poison_block cfg m (UMM_BLOCK cfg b) = (True, [])"
    by (auto simp: block_used_next prod_eq_iff check_poison_block_log_ok)
  from scan_fail [OF pre this c]
  show "umm_poison_check cfg m
      = Some (False, filter (block_used cfg m) bs @ [c],
              snd (check_poison_block cfg m (UMM_BLOCK cfg c)))"
    by (simp add: umm_poison_check_loop)
qed

lemma example_scan: "umm_poison_check example_cfg example_heap = Some (True, [1, 4], [])"
proof -
  have "scan_path example_cfg example_heap (next_index example_cfg example_heap 0) [1, 3, 4]"
    by (simp add: eval_simps)
  moreover have "\<forall>b\<in>set [1, 3, 4]. block_used example_cfg example_heap b \<longrightarrow>
      check_poison_block example_cfg example_heap (UMM_BLOCK example_cfg b) = (True, [])"
    by (simp add: eval_simps)
  ultimately have "poison_check_loop example_cfg example_heap
      (next_index example_cfg example_heap 0) [] []
      = Some (True, [] @ filter (block_used example_cfg example_heap) [1, 3, 4], [])"
    by (rule scan_pass)
  moreover have "filter (block_used example_cfg example_heap) [1, 3, 4] = [1, 4]"
    by (simp add: eval_simps)
  ultimately show ?thesis
    by (simp add: umm_poison_check_loop)
qed

theorem umm_poison_check_scan_witness:
  "scan_path example_cfg example_heap (next_index example_cfg example_heap 0) [1, 3, 4] \<and>
   guards_intact example_cfg example_heap (UMM_BLOCK example_cfg 1) \<and>
   guards_intact example_cfg example_heap (UMM_BLOCK example_cfg 4) \<and>
   \<not> block_used example_cfg example_heap 3 \<and>
   umm_poison_check example_cfg example_heap = Some (True, [1, 4], []) \<and>
   \<not> fst (check_poison_block example_cfg (example_heap(0x1013 := 0, 0x102E := 0))
           (UMM_BLOCK example_cfg 4)) \<and>
   umm_poison_check example_cfg (example_heap(0x1013 := 0, 0x102E := 0))
     = Some (False, [1], [Log_no_poison ''after'' 0x1013, Log_byte 0, Log_byte 0xA5,
         Log_byte 0xA5, Log_byte 0xA5, Log_newline])"
proof -
  let ?h = "example_heap(0x1013 := 0, 0x102E := 0)"
  have path: "scan_path example_cfg example_heap (next_index example_cfg example_heap 0) [1, 3, 4]"
    by (simp add: eval_simps)
  have intact: "guards_intact example_cfg example_heap (UMM_BLOCK example_cfg 1)"
    "guards_intact example_cfg example_heap (UMM_BLOCK example_cfg 4)"
    by (simp_all add: eval_simps)
  have used: "block_used example_cfg example_heap 1" "\<not> block_used example_cfg example_heap 3"
    "block_used example_cfg example_heap 4"
    by (simp_all add: eval_simps)
  have start: "next_index example_cfg ?h 0 = 1" "next_index example_cfg ?h 1 \<noteq> 0"
    by (simp_all add: eval_simps)
  then have pre: "scan_prefix example_cfg ?h (next_index example_cfg ?h 0) ([] @ [1])"
    by simp
  have bad: "block_used example_cfg ?h 1"
    "check_poison_block example_cfg ?h (UMM_BLOCK example_cfg 1)
       = (False, [Log_no_poison ''after'' 0x1013, Log_byte 0, Log_byte 0xA5,
           Log_byte 0xA5, Log_byte 0xA5, Log_newline])"
    "\<not> fst (check_poison_block example_cfg ?h (UMM_BLOCK example_cfg 4))"
    by (simp_all add: eval_simps)
  from path intact used
  have "umm_poison_check example_cfg example_heap = Some (True, [1, 4], [])"
    using umm_poison_check_scan [of example_cfg example_heap "[1, 3, 4]" 0]
    by simp
  moreover from pre bad start
  have "umm_poison_check example_cfg ?h
     = Some (False, [1], [Log_no_poison ''after'' 0x1013, Log_byte 0, Log_byte 0xA5,
         Log_byte 0xA5, Log_byte 0xA5, Log_newline])"
    using umm_poison_check_scan [of example_cfg ?h "[]" 1]
    by simp
  ultimately show ?thesis
    using path intact used bad by simp
qed

text \<open>
  C9. \<^verbatim>\<open>umm_poison_check\<close> never calls the check on a block whose masked link is 0: the
  loop tests the link of the current block before its body runs. Every block in the list
  of checked blocks of a finished scan has a non-zero masked link, and when the links
  lead through \<open>bs\<close> to the terminating block, the scan finishes and the terminating
  block is not among the checked ones, whatever its tag and its guards are.
\<close>

theorem umm_poison_check_skips_last:
  "(umm_poison_check cfg m = Some (ok, calls, lg) \<longrightarrow>
      (\<forall>c\<in>set calls. next_index cfg m c \<noteq> 0)) \<and>
   (scan_path cfg m (next_index cfg m 0) bs \<longrightarrow>
      (\<exists>ok calls lg. umm_poison_check cfg m = Some (ok, calls, lg) \<and>
         scan_last cfg m (next_index cfg m 0) bs \<notin> set calls))"
proof (intro conjI impI)
  assume "umm_poison_check cfg m = Some (ok, calls, lg)"
  then have "poison_check_loop cfg m (next_index cfg m 0) [] [] = Some (ok, calls, lg)"
    by (simp add: umm_poison_check_loop)
  from loop_calls_nonterminal [OF this]
  show "\<forall>c\<in>set calls. next_index cfg m c \<noteq> 0"
    by simp
next
  assume path: "scan_path cfg m (next_index cfg m 0) bs"
  from scan_total [OF this] obtain r
    where r: "poison_check_loop cfg m (next_index cfg m 0) [] [] = Some r"
    by blast
  from loop_calls_nonterminal [OF this]
  have "\<forall>c\<in>set (fst (snd r)). next_index cfg m c \<noteq> 0"
    by simp
  with scan_path_last [OF path]
  have "scan_last cfg m (next_index cfg m 0) bs \<notin> set (fst (snd r))"
    by blast
  with r show "\<exists>ok calls lg. umm_poison_check cfg m = Some (ok, calls, lg) \<and>
      scan_last cfg m (next_index cfg m 0) bs \<notin> set calls"
    by (cases r) (auto simp: umm_poison_check_loop)
qed

theorem umm_poison_check_skips_last_witness:
  "umm_poison_check example_cfg example_heap = Some (True, [1, 4], []) \<and>
   next_index example_cfg example_heap 1 \<noteq> 0 \<and>
   next_index example_cfg example_heap 4 \<noteq> 0 \<and>
   scan_path example_cfg example_heap (next_index example_cfg example_heap 0) [1, 3, 4] \<and>
   scan_last example_cfg example_heap (next_index example_cfg example_heap 0) [1, 3, 4] = 6 \<and>
   next_index example_cfg example_heap 6 = 0 \<and>
   block_used example_cfg example_heap 6 \<and>
   \<not> guards_intact example_cfg example_heap (UMM_BLOCK example_cfg 6)"
proof -
  have "scan_path example_cfg example_heap (next_index example_cfg example_heap 0) [1, 3, 4]"
    "scan_last example_cfg example_heap (next_index example_cfg example_heap 0) [1, 3, 4] = 6"
    "next_index example_cfg example_heap 6 = 0"
    "block_used example_cfg example_heap 6"
    "\<not> guards_intact example_cfg example_heap (UMM_BLOCK example_cfg 6)"
    by (simp_all add: eval_simps)
  then show ?thesis
    using example_scan
      umm_poison_check_skips_last [of example_cfg example_heap True "[1, 4]" "[]" "[1, 3, 4]"]
    by simp
qed

section \<open>Stamping a block\<close>

lemma poisoned_iff: "poisoned m p n \<longleftrightarrow> (\<forall>i<n. m (p + of_nat i) = POISON_BYTE)"
  by (auto simp: poisoned_def list_all_iff)

lemma zeroed_iff: "zeroed m p n \<longleftrightarrow> (\<forall>i<n. m (p + of_nat i) = 0)"
  by (auto simp: zeroed_def list_all_iff)

lemma in_region_iff: "in_region a p n \<longleftrightarrow> (\<exists>i<n. a = p + of_nat i)"
  by (auto simp: in_region_def list_ex_iff)

lemma addr_eq_iff:
  fixes p :: "'a::len word"
  assumes "x < 2 ^ LENGTH('a)" "y < 2 ^ LENGTH('a)"
  shows "p + of_nat x = p + of_nat y \<longleftrightarrow> x = y"
  using of_nat_word_inj [OF assms] by simp

lemma unat_of_nat_le: "unat (of_nat n :: 'a::len word) \<le> n"
  by (simp add: unat_of_nat)

lemma unat_of_nat_fits: "n < 2 ^ LENGTH('a) \<Longrightarrow> unat (of_nat n :: 'a::len word) = n"
  by (simp add: unat_of_nat)

lemma put_poison_apply:
  "put_poison m p n a = (if \<exists>i<unat n. a = p + of_nat i then POISON_BYTE else m a)"
  by (simp add: put_poison_def memset_apply)

lemma get_poisoned_ptr:
  "ptr \<noteq> 0 \<Longrightarrow> sz \<noteq> 0 \<Longrightarrow>
     fst (get_poisoned cfg m ptr sz)
       = ptr + of_nat (LEN_TYPE_SIZE cfg) + of_nat (UMM_POISON_SIZE_BEFORE cfg)"
  by (simp add: get_poisoned_def Let_def)

lemma get_poisoned_null: "get_poisoned cfg m 0 sz = (0, m)" "get_poisoned cfg m ptr 0 = (ptr, m)"
  by (simp_all add: get_poisoned_def)

lemma get_poisoned_mem:
  "ptr \<noteq> 0 \<Longrightarrow> sz \<noteq> 0 \<Longrightarrow>
     snd (get_poisoned cfg m ptr sz)
       = store_uint cfg
           (put_poison
              (put_poison m (ptr + of_nat (LEN_TYPE_SIZE cfg))
                 (of_nat (UMM_POISON_SIZE_BEFORE cfg)))
              (ptr + sz - of_nat (UMM_POISON_SIZE_AFTER cfg))
              (of_nat (UMM_POISON_SIZE_AFTER cfg)))
           ptr (LEN_TYPE_SIZE cfg) (unat sz)"
  by (simp add: get_poisoned_def Let_def)

lemma get_poisoned_other:
  fixes ptr :: "'a::len word"
  assumes nz: "ptr \<noteq> 0" "sz \<noteq> 0"
    and len: "\<forall>j<LEN_TYPE_SIZE cfg. a \<noteq> ptr + of_nat j"
    and pre: "\<forall>j<UMM_POISON_SIZE_BEFORE cfg. a \<noteq> ptr + of_nat (LEN_TYPE_SIZE cfg) + of_nat j"
    and post: "\<forall>j<UMM_POISON_SIZE_AFTER cfg.
        a \<noteq> ptr + sz - of_nat (UMM_POISON_SIZE_AFTER cfg) + of_nat j"
  shows "snd (get_poisoned cfg m ptr sz) a = m a"
proof -
  have "a \<noteq> ptr + of_nat (LEN_TYPE_SIZE cfg) + of_nat i"
    if "i < unat (of_nat (UMM_POISON_SIZE_BEFORE cfg) :: 'a word)" for i
  proof -
    from that have "i < UMM_POISON_SIZE_BEFORE cfg"
      by (rule less_le_trans) (rule unat_of_nat_le)
    with pre show ?thesis by blast
  qed
  moreover have "a \<noteq> ptr + sz - of_nat (UMM_POISON_SIZE_AFTER cfg) + of_nat i"
    if "i < unat (of_nat (UMM_POISON_SIZE_AFTER cfg) :: 'a word)" for i
  proof -
    from that have "i < UMM_POISON_SIZE_AFTER cfg"
      by (rule less_le_trans) (rule unat_of_nat_le)
    with post show ?thesis by blast
  qed
  ultimately show ?thesis
    using nz len
    by (auto simp: get_poisoned_mem store_uint_other put_poison_apply)
qed

lemma get_poisoned_pre:
  fixes ptr :: "'a::len word"
  assumes nz: "ptr \<noteq> 0" "sz \<noteq> 0"
    and fits: "LEN_TYPE_SIZE cfg + UMM_POISON_SIZE_BEFORE cfg < 2 ^ LENGTH('a)"
    and i: "i < UMM_POISON_SIZE_BEFORE cfg"
  shows "snd (get_poisoned cfg m ptr sz) (ptr + of_nat (LEN_TYPE_SIZE cfg) + of_nat i) = POISON_BYTE"
proof -
  let ?a = "ptr + of_nat (LEN_TYPE_SIZE cfg) + of_nat i"
  let ?m2 = "put_poison
      (put_poison m (ptr + of_nat (LEN_TYPE_SIZE cfg)) (of_nat (UMM_POISON_SIZE_BEFORE cfg)))
      (ptr + sz - of_nat (UMM_POISON_SIZE_AFTER cfg)) (of_nat (UMM_POISON_SIZE_AFTER cfg))"
  have a: "?a = ptr + of_nat (LEN_TYPE_SIZE cfg + i)"
    by simp
  have "?a \<noteq> ptr + of_nat j" if "j < LEN_TYPE_SIZE cfg" for j
    unfolding a using that fits i by (subst addr_eq_iff) simp_all
  then have "\<forall>j<LEN_TYPE_SIZE cfg. ?a \<noteq> ptr + of_nat j"
    by blast
  then have "store_uint cfg ?m2 ptr (LEN_TYPE_SIZE cfg) (unat sz) ?a = ?m2 ?a"
    by (rule store_uint_other)
  moreover have "i < unat (of_nat (UMM_POISON_SIZE_BEFORE cfg) :: 'a word)"
    using fits i by (simp add: unat_of_nat_fits)
  ultimately show ?thesis
    using nz by (auto simp: get_poisoned_mem put_poison_apply)
qed

lemma word_sub_of_nat:
  fixes sz :: "'a::len word"
  assumes "n \<le> unat sz"
  shows "sz - of_nat n = of_nat (unat sz - n)"
proof -
  have "(of_nat (unat sz - n) :: 'a word) = of_nat (unat sz) - of_nat n"
    using assms by (rule of_nat_diff)
  then show ?thesis by simp
qed

lemma get_poisoned_post:
  fixes ptr :: "'a::len word"
  assumes nz: "ptr \<noteq> 0" "sz \<noteq> 0"
    and fits: "LEN_TYPE_SIZE cfg + UMM_POISON_SIZE_AFTER cfg \<le> unat sz"
    and i: "i < UMM_POISON_SIZE_AFTER cfg"
  shows "snd (get_poisoned cfg m ptr sz)
           (ptr + sz - of_nat (UMM_POISON_SIZE_AFTER cfg) + of_nat i) = POISON_BYTE"
proof -
  let ?A = "UMM_POISON_SIZE_AFTER cfg"
  let ?a = "ptr + sz - of_nat ?A + of_nat i"
  let ?m2 = "put_poison
      (put_poison m (ptr + of_nat (LEN_TYPE_SIZE cfg)) (of_nat (UMM_POISON_SIZE_BEFORE cfg)))
      (ptr + sz - of_nat ?A) (of_nat ?A)"
  have sz: "unat sz < 2 ^ LENGTH('a)"
    by (rule unsigned_less)
  have "sz - of_nat ?A = of_nat (unat sz - ?A)"
    using fits by (intro word_sub_of_nat) simp
  then have "ptr + sz - of_nat ?A + of_nat i = ptr + (of_nat (unat sz - ?A) + of_nat i)"
    by (simp add: algebra_simps)
  then have a: "?a = ptr + of_nat (unat sz - ?A + i)"
    by simp
  have "unat sz - ?A + i < unat sz"
    using fits i by linarith
  then have off: "unat sz - ?A + i < 2 ^ LENGTH('a)"
    using sz by (rule less_trans)
  have "?a \<noteq> ptr + of_nat j" if "j < LEN_TYPE_SIZE cfg" for j
  proof -
    from that fits have "j < unat sz" "j \<noteq> unat sz - ?A + i"
      by linarith+
    with sz have "j < 2 ^ LENGTH('a)"
      by (meson less_trans)
    from addr_eq_iff [OF off this, of ptr] \<open>j \<noteq> unat sz - ?A + i\<close> show ?thesis
      unfolding a by simp
  qed
  then have "\<forall>j<LEN_TYPE_SIZE cfg. ?a \<noteq> ptr + of_nat j"
    by blast
  then have "store_uint cfg ?m2 ptr (LEN_TYPE_SIZE cfg) (unat sz) ?a = ?m2 ?a"
    by (rule store_uint_other)
  moreover have "?A < 2 ^ LENGTH('a)"
    using fits sz by linarith
  then have "i < unat (of_nat ?A :: 'a word)"
    using i by (simp add: unat_of_nat_fits)
  ultimately show ?thesis
    using nz by (auto simp: get_poisoned_mem put_poison_apply)
qed

lemma get_poisoned_len:
  fixes ptr :: "'a::len word"
  assumes "ptr \<noteq> 0" "sz \<noteq> 0" "LEN_TYPE_SIZE cfg \<le> 2 ^ LENGTH('a)"
  shows "load_uint cfg (snd (get_poisoned cfg m ptr sz)) ptr (LEN_TYPE_SIZE cfg)
           = unat sz mod 256 ^ LEN_TYPE_SIZE cfg"
  using assms by (simp add: get_poisoned_mem load_store_uint)


lemmas eval_mem_simps = get_poisoned_def put_poison_def memset_def store_uint_def
  example_malloc_def

text \<open>
  C3 (amended). For a non-null raw pointer and a non-zero size, \<^verbatim>\<open>get_poisoned\<close> returns
  raw pointer + length-field size + pre-guard size. Afterwards the pre-guard bytes right
  behind the length field all hold the sentinel byte (length-field size + pre-guard size
  fitting \<^verbatim>\<open>size_t\<close>), and so do the post-guard bytes that end at raw pointer + size,
  provided the size is at least length-field size + post-guard size. For a null pointer
  or the size 0 the pointer and the memory are returned unchanged.
\<close>

theorem get_poisoned_stamp:
  fixes ptr :: "'a::len word"
  shows
  "(ptr \<noteq> 0 \<and> sz \<noteq> 0 \<longrightarrow>
      fst (get_poisoned cfg m ptr sz)
        = ptr + of_nat (LEN_TYPE_SIZE cfg) + of_nat (UMM_POISON_SIZE_BEFORE cfg)) \<and>
   (ptr \<noteq> 0 \<and> sz \<noteq> 0 \<and>
    LEN_TYPE_SIZE cfg + UMM_POISON_SIZE_BEFORE cfg < 2 ^ LENGTH('a) \<longrightarrow>
      poisoned (snd (get_poisoned cfg m ptr sz)) (ptr + of_nat (LEN_TYPE_SIZE cfg))
        (UMM_POISON_SIZE_BEFORE cfg)) \<and>
   (ptr \<noteq> 0 \<and> sz \<noteq> 0 \<and>
    LEN_TYPE_SIZE cfg + UMM_POISON_SIZE_AFTER cfg \<le> unat sz \<longrightarrow>
      poisoned (snd (get_poisoned cfg m ptr sz)) (ptr + sz - of_nat (UMM_POISON_SIZE_AFTER cfg))
        (UMM_POISON_SIZE_AFTER cfg)) \<and>
   get_poisoned cfg m 0 sz = (0, m) \<and>
   get_poisoned cfg m ptr 0 = (ptr, m)"
  by (simp add: get_poisoned_null get_poisoned_ptr poisoned_iff get_poisoned_pre
      get_poisoned_post)

theorem get_poisoned_stamp_witness:
  "(0x100C :: 32 word) \<noteq> 0 \<and> (11 :: 32 word) \<noteq> 0 \<and>
   LEN_TYPE_SIZE example_cfg + UMM_POISON_SIZE_BEFORE example_cfg < 2 ^ LENGTH(32) \<and>
   LEN_TYPE_SIZE example_cfg + UMM_POISON_SIZE_AFTER example_cfg \<le> unat (11 :: 32 word) \<and>
   fst (get_poisoned example_cfg (\<lambda>_. 0) 0x100C 11) = 0x1012 \<and>
   poisoned (snd (get_poisoned example_cfg (\<lambda>_. 0) 0x100C 11)) 0x100E 4 \<and>
   poisoned (snd (get_poisoned example_cfg (\<lambda>_. 0) 0x100C 11)) 0x1013 4 \<and>
   get_poisoned example_cfg example_heap 0 11 = (0, example_heap) \<and>
   get_poisoned example_cfg example_heap 0x100C 0 = (0x100C, example_heap)"
  using get_poisoned_stamp [of "0x100C" 11 example_cfg "\<lambda>_. 0"]
    get_poisoned_stamp [of 0 11 example_cfg example_heap]
    get_poisoned_stamp [of "0x100C" 0 example_cfg example_heap]
  by (simp add: example_cfg_def)

text \<open>
  With a size below length-field size + post-guard size the length field, written last,
  lies inside the post-guard: for the size 4 the first of the four bytes that end at
  raw pointer + 4 holds the length 4, not the sentinel.
\<close>

theorem get_poisoned_stamp_counterexample:
  "(0x2000 :: 32 word) \<noteq> 0 \<and> (4 :: 32 word) \<noteq> 0 \<and>
   snd (get_poisoned example_cfg (\<lambda>_. 0) 0x2000 4) 0x2000 = 0x04 \<and>
   \<not> poisoned (snd (get_poisoned example_cfg (\<lambda>_. 0) 0x2000 4))
        (0x2000 + 4 - of_nat (UMM_POISON_SIZE_AFTER example_cfg))
        (UMM_POISON_SIZE_AFTER example_cfg)"
  by (simp add: eval_mem_simps eval_simps)

text \<open>
  C4 (amended). For a non-null raw pointer and a non-zero size, the length field that
  \<^verbatim>\<open>get_poisoned\<close> writes, read back as \<^verbatim>\<open>check_poison_block\<close> reads it, holds the
  size reduced modulo \<open>256 ^ LEN_TYPE_SIZE\<close> (the cast to the field's type); it is the
  exact size whenever the size is below \<open>256 ^ LEN_TYPE_SIZE\<close>.
\<close>

theorem get_poisoned_length_field:
  fixes ptr :: "'a::len word"
  shows
  "ptr \<noteq> 0 \<and> sz \<noteq> 0 \<and> LEN_TYPE_SIZE cfg \<le> 2 ^ LENGTH('a) \<longrightarrow>
     load_uint cfg (snd (get_poisoned cfg m ptr sz)) ptr (LEN_TYPE_SIZE cfg)
       = unat sz mod 256 ^ LEN_TYPE_SIZE cfg \<and>
     (unat sz < 256 ^ LEN_TYPE_SIZE cfg \<longrightarrow>
        load_uint cfg (snd (get_poisoned cfg m ptr sz)) ptr (LEN_TYPE_SIZE cfg) = unat sz)"
  by (simp add: get_poisoned_len)

theorem get_poisoned_length_field_witness:
  "(0x100C :: 32 word) \<noteq> 0 \<and> (11 :: 32 word) \<noteq> 0 \<and>
   LEN_TYPE_SIZE example_cfg \<le> 2 ^ LENGTH(32) \<and>
   unat (11 :: 32 word) < 256 ^ LEN_TYPE_SIZE example_cfg \<and>
   load_uint example_cfg (snd (get_poisoned example_cfg (\<lambda>_. 0) 0x100C 11)) 0x100C
     (LEN_TYPE_SIZE example_cfg) = 11 \<and>
   load_uint example_cfg (snd (get_poisoned example_cfg (\<lambda>_. 0) 0x100C 0x1000B)) 0x100C
     (LEN_TYPE_SIZE example_cfg) = 11"
  using get_poisoned_length_field [of "0x100C" 11 example_cfg "\<lambda>_. 0"]
    get_poisoned_length_field [of "0x100C" "0x1000B" example_cfg "\<lambda>_. 0"]
  by (simp add: example_cfg_def)

text \<open>
  With a 16-bit length field and a 32-bit \<^verbatim>\<open>size_t\<close>, the size \<open>0x10000\<close> is stored as 0.
\<close>

theorem get_poisoned_length_field_counterexample:
  "(0x2000 :: 32 word) \<noteq> 0 \<and> (0x10000 :: 32 word) \<noteq> 0 \<and>
   unat (0x10000 :: 32 word) = 65536 \<and>
   load_uint example_cfg (snd (get_poisoned example_cfg (\<lambda>_. 0) 0x2000 0x10000)) 0x2000
     (LEN_TYPE_SIZE example_cfg) = 0"
  by (simp add: eval_mem_simps eval_simps)

section \<open>Zero-filled allocation\<close>

lemma post_guard_addr:
  fixes ptr :: "'a::len word"
  assumes "n \<le> unat sz"
  shows "ptr + sz - of_nat n + of_nat j = ptr + of_nat (unat sz - n + j)"
proof -
  have "ptr + sz - of_nat n + of_nat j = ptr + (sz - of_nat n) + of_nat j"
    by simp
  also have "\<dots> = ptr + of_nat (unat sz - n) + of_nat j"
    by (simp only: word_sub_of_nat [OF assms])
  also have "\<dots> = ptr + of_nat (unat sz - n + j)"
    by simp
  finally show ?thesis .
qed

lemma get_poisoned_other_off:
  fixes ptr :: "'a::len word"
  assumes nz: "ptr \<noteq> 0" "sz \<noteq> 0"
    and fits: "LEN_TYPE_SIZE cfg + UMM_POISON_SIZE_BEFORE cfg + UMM_POISON_SIZE_AFTER cfg \<le> unat sz"
    and x: "x < 2 ^ LENGTH('a)"
    and out: "LEN_TYPE_SIZE cfg + UMM_POISON_SIZE_BEFORE cfg \<le> x \<and>
                x < unat sz - UMM_POISON_SIZE_AFTER cfg \<or> unat sz \<le> x"
  shows "snd (get_poisoned cfg m ptr sz) (ptr + of_nat x) = m (ptr + of_nat x)"
proof (rule get_poisoned_other [OF nz])
  let ?L = "LEN_TYPE_SIZE cfg" and ?B = "UMM_POISON_SIZE_BEFORE cfg"
    and ?A = "UMM_POISON_SIZE_AFTER cfg"
  have sz: "unat sz < 2 ^ LENGTH('a)"
    by (rule unsigned_less)
  have neq: "ptr + of_nat x \<noteq> ptr + of_nat y" if "y < unat sz" "y \<noteq> x" for y
  proof -
    from that sz have "y < 2 ^ LENGTH('a)"
      by (meson less_trans)
    from addr_eq_iff [OF x this, of ptr] that show ?thesis
      by simp
  qed
  show "\<forall>j<?L. ptr + of_nat x \<noteq> ptr + of_nat j"
    using out fits by (intro allI impI neq) linarith+
  show "\<forall>j<?B. ptr + of_nat x \<noteq> ptr + of_nat ?L + of_nat j"
  proof (intro allI impI)
    fix j assume "j < ?B"
    with out fits have "ptr + of_nat x \<noteq> ptr + of_nat (?L + j)"
      by (intro neq) linarith+
    then show "ptr + of_nat x \<noteq> ptr + of_nat ?L + of_nat j"
      by simp
  qed
  show "\<forall>j<?A. ptr + of_nat x \<noteq> ptr + sz - of_nat ?A + of_nat j"
  proof (intro allI impI)
    fix j assume "j < ?A"
    with out fits have "ptr + of_nat x \<noteq> ptr + of_nat (unat sz - ?A + j)"
      by (intro neq) linarith+
    moreover from fits have "?A \<le> unat sz"
      by simp
    ultimately show "ptr + of_nat x \<noteq> ptr + sz - of_nat ?A + of_nat j"
      by (simp only: post_guard_addr not_False_eq_True)
  qed
qed

text \<open>
  C8 (amended). Let \<open>num * item_size\<close> be positive and \<open>total = num * item_size +\<close>
  overhead fit \<^verbatim>\<open>size_t\<close> (no wrap-around in the product or the sum), and let the
  allocator return the non-null \<open>ret\<close> for \<open>total\<close>. Then \<^verbatim>\<open>umm_poison_calloc\<close> returns
  \<open>ret\<close> + length-field size + pre-guard size; the length field holds \<open>total\<close> (cast to
  the field's type), both guards hold the sentinel byte (the zero-fill came first), all
  \<open>num * item_size\<close> bytes of the user region are zero, and no byte outside the \<open>total\<close>
  bytes from \<open>ret\<close> differs from what the allocator left.
\<close>

theorem umm_poison_calloc_zero_then_stamp:
  fixes num item_size :: "'a::len word"
  assumes pos: "0 < unat num * unat item_size"
    and fits: "unat num * unat item_size
        + (LEN_TYPE_SIZE cfg + UMM_POISON_SIZE_BEFORE cfg + UMM_POISON_SIZE_AFTER cfg)
        < 2 ^ LENGTH('a)"
    and alloc: "umm_malloc (of_nat (unat num * unat item_size
        + (LEN_TYPE_SIZE cfg + UMM_POISON_SIZE_BEFORE cfg + UMM_POISON_SIZE_AFTER cfg))) m
        = (ret, m1)"
    and ret: "ret \<noteq> 0"
  shows
   "let total = unat num * unat item_size
          + (LEN_TYPE_SIZE cfg + UMM_POISON_SIZE_BEFORE cfg + UMM_POISON_SIZE_AFTER cfg);
        (p, m') = umm_poison_calloc cfg umm_malloc m num item_size
    in p = ret + of_nat (LEN_TYPE_SIZE cfg) + of_nat (UMM_POISON_SIZE_BEFORE cfg) \<and>
       load_uint cfg m' ret (LEN_TYPE_SIZE cfg) = total mod 256 ^ LEN_TYPE_SIZE cfg \<and>
       poisoned m' (ret + of_nat (LEN_TYPE_SIZE cfg)) (UMM_POISON_SIZE_BEFORE cfg) \<and>
       poisoned m' (ret + of_nat (total - UMM_POISON_SIZE_AFTER cfg)) (UMM_POISON_SIZE_AFTER cfg) \<and>
       zeroed m' p (unat num * unat item_size) \<and>
       (\<forall>a. \<not> in_region a ret total \<longrightarrow> m' a = m1 a)"
proof -
  let ?L = "LEN_TYPE_SIZE cfg" and ?B = "UMM_POISON_SIZE_BEFORE cfg"
    and ?A = "UMM_POISON_SIZE_AFTER cfg"
  define n where "n = unat num * unat item_size"
  define T where "T = n + (?L + ?B + ?A)"
  define tw :: "'a word" where "tw = of_nat T"
  let ?m2 = "memset m1 ret 0 tw"
  let ?m' = "snd (get_poisoned cfg ?m2 ret tw)"
  from pos have pos: "0 < n"
    by (simp only: n_def)
  from fits have fits: "T < 2 ^ LENGTH('a)"
    by (simp only: T_def n_def)
  from alloc have alloc: "umm_malloc tw m = (ret, m1)"
    by (simp only: tw_def T_def n_def)
  have T_ge: "?L + ?B + ?A \<le> T" "n \<le> T"
    by (simp_all add: T_def)
  have "item_size * num = of_nat (unat item_size * unat num)"
    by (rule word_arith_nat_mult)
  then have sz: "item_size * num = of_nat n"
    by (simp only: n_def mult.commute)
  from fits T_ge have "n < 2 ^ LENGTH('a)"
    by linarith
  then have n: "unat (of_nat n :: 'a word) = n"
    by (rule unat_of_nat_fits)
  have sz_nz: "(of_nat n :: 'a word) \<noteq> 0"
  proof
    assume "(of_nat n :: 'a word) = 0"
    then have "unat (of_nat n :: 'a word) = 0"
      by (simp only: unat_0)
    with n pos show False
      by linarith
  qed
  have total: "(of_nat n :: 'a word) + poison_size cfg (of_nat n) = tw"
    using sz_nz by (simp add: poison_size_def tw_def T_def)
  from fits have T: "unat tw = T"
    unfolding tw_def by (rule unat_of_nat_fits)
  have T_nz: "tw \<noteq> 0"
  proof
    assume "tw = 0"
    then have "unat tw = 0"
      by (simp only: unat_0)
    with T T_ge pos show False
      by linarith
  qed
  have calloc: "umm_poison_calloc cfg umm_malloc m num item_size = get_poisoned cfg ?m2 ret tw"
    by (simp only: umm_poison_calloc_def Let_def sz total alloc prod.case ret if_True simp_thms)
  have ptr: "fst (get_poisoned cfg ?m2 ret tw) = ret + of_nat ?L + of_nat ?B"
    using ret T_nz by (rule get_poisoned_ptr)
  have "?L \<le> 2 ^ LENGTH('a)"
    using fits T_ge by linarith
  from get_poisoned_len [OF ret T_nz this]
  have len: "load_uint cfg ?m' ret ?L = T mod 256 ^ ?L"
    by (simp only: T)
  have "?L + ?B < 2 ^ LENGTH('a)"
    using fits T_ge pos unfolding T_def by linarith
  then have pre: "poisoned ?m' (ret + of_nat ?L) ?B"
    unfolding poisoned_iff
    by (intro allI impI get_poisoned_pre [OF ret T_nz])
  have post: "poisoned ?m' (ret + of_nat (T - ?A)) ?A"
    unfolding poisoned_iff
  proof (intro allI impI)
    fix j assume j: "j < ?A"
    have A: "?A \<le> unat tw" and LA: "?L + ?A \<le> unat tw"
      using T_ge by (simp_all only: T)
    have "ret + tw - of_nat ?A + of_nat j = ret + of_nat (unat tw - ?A + j)"
      using A by (rule post_guard_addr)
    also have "\<dots> = ret + of_nat (T - ?A) + of_nat j"
      by (simp only: T of_nat_add add.assoc)
    finally have addr: "ret + of_nat (T - ?A) + of_nat j = ret + tw - of_nat ?A + of_nat j"
      by (rule sym)
    from get_poisoned_post [OF ret T_nz LA j]
    show "?m' (ret + of_nat (T - ?A) + of_nat j) = POISON_BYTE"
      by (simp only: addr)
  qed
  have fits3: "?L + ?B + ?A \<le> unat tw"
    using T_ge by (simp only: T)
  have zero: "zeroed ?m' (ret + of_nat ?L + of_nat ?B) n"
    unfolding zeroed_iff
  proof (intro allI impI)
    fix k assume k: "k < n"
    let ?x = "?L + ?B + k"
    have x: "?x < T"
      using k unfolding T_def by linarith
    from x fits have x2: "?x < 2 ^ LENGTH('a)"
      by (rule less_trans)
    have "?L + ?B \<le> ?x \<and> ?x < unat tw - ?A \<or> unat tw \<le> ?x"
      using k unfolding T T_def by linarith
    from get_poisoned_other_off [OF ret T_nz fits3 x2 this]
    have "?m' (ret + of_nat ?x) = ?m2 (ret + of_nat ?x)" .
    also have "\<dots> = 0"
      using x T by (auto simp: memset_apply)
    finally show "?m' (ret + of_nat ?L + of_nat ?B + of_nat k) = 0"
      by (simp only: of_nat_add add.assoc)
  qed
  have outside: "?m' a = m1 a" if "\<not> in_region a ret T" for a
  proof -
    let ?x = "unat (a - ret)"
    have a: "ret + of_nat ?x = a"
      by simp
    from that have no: "\<forall>i<T. a \<noteq> ret + of_nat i"
      by (simp add: in_region_iff)
    have "T \<le> ?x"
    proof (rule ccontr)
      assume "\<not> T \<le> ?x"
      then have "?x < T" by simp
      with no have "a \<noteq> ret + of_nat ?x" by blast
      with a show False by simp
    qed
    then have "?L + ?B \<le> ?x \<and> ?x < unat tw - ?A \<or> unat tw \<le> ?x"
      by (simp only: T simp_thms)
    moreover have "?x < 2 ^ LENGTH('a)"
      by (rule unsigned_less)
    ultimately have "?m' (ret + of_nat ?x) = ?m2 (ret + of_nat ?x)"
      by (intro get_poisoned_other_off [OF ret T_nz fits3])
    then have "?m' a = ?m2 a"
      by (simp only: a)
    also have "\<dots> = m1 a"
      using no T by (auto simp: memset_apply)
    finally show ?thesis .
  qed
  from ptr len pre post zero outside
  have "let total = T; (p, m') = umm_poison_calloc cfg umm_malloc m num item_size
    in p = ret + of_nat ?L + of_nat ?B \<and>
       load_uint cfg m' ret ?L = total mod 256 ^ ?L \<and>
       poisoned m' (ret + of_nat ?L) ?B \<and>
       poisoned m' (ret + of_nat (total - ?A)) ?A \<and>
       zeroed m' p n \<and>
       (\<forall>a. \<not> in_region a ret total \<longrightarrow> m' a = m1 a)"
    by (simp add: calloc Let_def case_prod_beta)
  then show ?thesis
    by (simp only: T_def n_def)
qed


theorem umm_poison_calloc_zero_then_stamp_witness:
  "0 < unat (2 :: 32 word) * unat (3 :: 32 word) \<and>
   unat (2 :: 32 word) * unat (3 :: 32 word)
     + (LEN_TYPE_SIZE example_cfg + UMM_POISON_SIZE_BEFORE example_cfg
        + UMM_POISON_SIZE_AFTER example_cfg) < 2 ^ LENGTH(32) \<and>
   example_malloc 16 (\<lambda>_. 0xFF) = (0x2000, \<lambda>_. 0xFF) \<and>
   (0x2000 :: 32 word) \<noteq> 0 \<and>
   fst (umm_poison_calloc example_cfg example_malloc (\<lambda>_. 0xFF) 2 3) = 0x2006 \<and>
   load_uint example_cfg (snd (umm_poison_calloc example_cfg example_malloc (\<lambda>_. 0xFF) 2 3))
     0x2000 2 = 16 \<and>
   poisoned (snd (umm_poison_calloc example_cfg example_malloc (\<lambda>_. 0xFF) 2 3)) 0x2002 4 \<and>
   poisoned (snd (umm_poison_calloc example_cfg example_malloc (\<lambda>_. 0xFF) 2 3)) 0x200C 4 \<and>
   zeroed (snd (umm_poison_calloc example_cfg example_malloc (\<lambda>_. 0xFF) 2 3)) 0x2006 6"
proof -
  have alloc: "example_malloc (of_nat (unat (2 :: 32 word) * unat (3 :: 32 word)
      + (LEN_TYPE_SIZE example_cfg + UMM_POISON_SIZE_BEFORE example_cfg
         + UMM_POISON_SIZE_AFTER example_cfg))) (\<lambda>_. 0xFF) = (0x2000, \<lambda>_. 0xFF)"
    by (simp add: example_malloc_def)
  have "0 < unat (2 :: 32 word) * unat (3 :: 32 word)"
    and "unat (2 :: 32 word) * unat (3 :: 32 word)
      + (LEN_TYPE_SIZE example_cfg + UMM_POISON_SIZE_BEFORE example_cfg
         + UMM_POISON_SIZE_AFTER example_cfg) < 2 ^ LENGTH(32)"
    and "(0x2000 :: 32 word) \<noteq> 0"
    by (simp_all add: example_cfg_def)
  from umm_poison_calloc_zero_then_stamp
    [where umm_malloc = example_malloc and m = "\<lambda>_. 0xFF" and cfg = example_cfg
       and num = 2 and item_size = 3, OF this(1,2) alloc this(3)]
  show ?thesis
    by (clarsimp simp: Let_def case_prod_beta example_cfg_def example_malloc_def)
qed

text \<open>
  When the sum wraps around, the claim fails: \<^verbatim>\<open>umm_poison_calloc(1, 0xFFFFFFF7)\<close> asks
  the allocator for 1 byte, and the length field written at \<open>ret\<close> lies inside the four
  post-guard bytes that end at \<open>ret + 1\<close>.
\<close>

theorem umm_poison_calloc_zero_then_stamp_counterexample:
  "0 < unat (1 :: 32 word) * unat (0xFFFFFFF7 :: 32 word) \<and>
   (0xFFFFFFF7 :: 32 word) * 1 + poison_size example_cfg (0xFFFFFFF7 * 1) = 1 \<and>
   example_malloc 1 (\<lambda>_. 0) = (0x2000, \<lambda>_. 0) \<and>
   fst (umm_poison_calloc example_cfg example_malloc (\<lambda>_. 0) 1 0xFFFFFFF7) = 0x2006 \<and>
   snd (umm_poison_calloc example_cfg example_malloc (\<lambda>_. 0) 1 0xFFFFFFF7) 0x2000 = 0x01 \<and>
   \<not> poisoned (snd (umm_poison_calloc example_cfg example_malloc (\<lambda>_. 0) 1 0xFFFFFFF7))
        (0x2000 + 1 - of_nat (UMM_POISON_SIZE_AFTER example_cfg))
        (UMM_POISON_SIZE_AFTER example_cfg)"
  by (simp add: umm_poison_calloc_def poison_size_def eval_mem_simps eval_simps)

section \<open>Detecting a corrupted guard\<close>

lemma check_poison_corrupt:
  assumes "i < unat n" "m (ptr + of_nat i) \<noteq> POISON_BYTE"
  shows "check_poison m ptr n w = (False, Log_no_poison w ptr # dump_mem m ptr n @ [Log_newline])"
proof -
  from assms have "\<not> check_poison_loop m ptr n 0"
    by (auto simp: check_poison_loop_0)
  then show ?thesis
    by (simp add: check_poison_def)
qed

lemma poisoned_upd:
  "poisoned m p n \<Longrightarrow> (\<forall>k<n. a \<noteq> p + of_nat k) \<Longrightarrow> poisoned (m(a := v)) p n"
  by (auto simp: poisoned_iff)

lemma load_uint_upd:
  "(\<forall>j<k. a \<noteq> p + of_nat j) \<Longrightarrow> load_uint cfg (m(a := v)) p k = load_uint cfg m p k"
  by (rule load_uint_cong) auto

lemma scan_detects:
  "scan_prefix cfg m cur (bs @ [c]) \<Longrightarrow> block_used cfg m c \<Longrightarrow>
   \<not> fst (check_poison_block cfg m (UMM_BLOCK cfg c)) \<Longrightarrow>
     \<exists>calls' lg'. poison_check_loop cfg m cur calls lg = Some (False, calls', lg')"
proof (induction bs arbitrary: cur calls lg)
  case Nil
  then show ?case by (simp add: loop_used_fail)
next
  case (Cons b bs)
  then have b: "b = cur" and nz: "next_index cfg m cur \<noteq> 0"
    and rest: "scan_prefix cfg m (next_index cfg m cur) (bs @ [c])"
    by simp_all
  note IH = Cons.IH [OF rest Cons.prems(2,3)]
  show ?case
  proof (cases "block_used cfg m cur")
    case False
    with nz IH show ?thesis by (simp add: loop_free)
  next
    case True
    show ?thesis
    proof (cases "fst (check_poison_block cfg m (UMM_BLOCK cfg cur))")
      case True
      with nz \<open>block_used cfg m cur\<close> IH show ?thesis
        by (simp add: loop_used_ok)
    next
      case False
      with nz True show ?thesis by (simp add: loop_used_fail)
    qed
  qed
qed

lemma poisoned_block_corrupt_pre:
  fixes pblock :: "'a::len word"
  assumes blk: "poisoned_block cfg m pblock s"
    and v: "v \<noteq> POISON_BYTE"
    and i: "i < UMM_POISON_SIZE_BEFORE cfg"
  defines "pre \<equiv> body_data cfg pblock + of_nat (LEN_TYPE_SIZE cfg)"
  defines "m' \<equiv> m(pre + of_nat i := v)"
  shows "block_next cfg m' pblock = block_next cfg m pblock"
    and "check_poison_block cfg m' pblock
      = (False, Log_no_poison ''before'' pre
           # dump_mem m' pre (of_nat (UMM_POISON_SIZE_BEFORE cfg)) @ [Log_newline])"
proof -
  let ?L = "LEN_TYPE_SIZE cfg" and ?B = "UMM_POISON_SIZE_BEFORE cfg"
    and ?A = "UMM_POISON_SIZE_AFTER cfg" and ?O = "BODY_OFFSET cfg"
  let ?a = "pre + of_nat i"
  from blk have used: "block_next cfg m pblock AND UMM_FREELIST_MASK cfg = 0"
    and off: "2 \<le> ?O" and fits: "?O + (?L + ?B + s + ?A) \<le> 2 ^ LENGTH('a)"
    by (simp_all add: poisoned_block_def Let_def)
  have a: "?a = pblock + of_nat (?O + ?L + i)"
    by (simp add: pre_def body_data_def)
  have a_fit: "?O + ?L + i < 2 ^ LENGTH('a)"
    using fits i by linarith
  have "?a \<noteq> pblock + of_nat j" if "j < 2" for j
  proof -
    from that off have "j < 2 ^ LENGTH('a)" "?O + ?L + i \<noteq> j"
      using a_fit by linarith+
    with addr_eq_iff [OF a_fit, of j pblock] show ?thesis
      by (simp only: a) simp
  qed
  then have "load_uint cfg m' pblock 2 = load_uint cfg m pblock 2"
    unfolding m'_def by (intro load_uint_upd) blast
  then show hdr: "block_next cfg m' pblock = block_next cfg m pblock"
    by (simp add: block_next_def)
  have "?B < 2 ^ LENGTH('a)"
    using fits off by linarith
  then have "i < unat (of_nat ?B :: 'a word)"
    using i by (simp add: unat_of_nat_fits)
  moreover have "m' (pre + of_nat i) \<noteq> POISON_BYTE"
    using v by (simp add: m'_def)
  ultimately have "check_poison m' pre (of_nat ?B) ''before''
      = (False, Log_no_poison ''before'' pre # dump_mem m' pre (of_nat ?B) @ [Log_newline])"
    by (rule check_poison_corrupt)
  with used hdr show "check_poison_block cfg m' pblock
      = (False, Log_no_poison ''before'' pre # dump_mem m' pre (of_nat ?B) @ [Log_newline])"
    by (simp add: check_poison_block_def Let_def pre_def)
qed


lemma poisoned_block_corrupt_post:
  fixes pblock :: "'a::len word"
  assumes blk: "poisoned_block cfg m pblock s"
    and v: "v \<noteq> POISON_BYTE"
    and exact: "LEN_TYPE_SIZE cfg + UMM_POISON_SIZE_BEFORE cfg + s + UMM_POISON_SIZE_AFTER cfg
        < 256 ^ LEN_TYPE_SIZE cfg"
    and i: "i < UMM_POISON_SIZE_AFTER cfg"
  defines "post \<equiv> body_data cfg pblock
      + of_nat (LEN_TYPE_SIZE cfg + UMM_POISON_SIZE_BEFORE cfg + s)"
  defines "m' \<equiv> m(post + of_nat i := v)"
  shows "block_next cfg m' pblock = block_next cfg m pblock"
    and "check_poison_block cfg m' pblock
      = (False, Log_no_poison ''after'' post
           # dump_mem m' post (of_nat (UMM_POISON_SIZE_AFTER cfg)) @ [Log_newline])"
proof -
  let ?L = "LEN_TYPE_SIZE cfg" and ?B = "UMM_POISON_SIZE_BEFORE cfg"
    and ?A = "UMM_POISON_SIZE_AFTER cfg" and ?O = "BODY_OFFSET cfg"
  let ?pc = "body_data cfg pblock"
  let ?a = "post + of_nat i"
  from blk have used: "block_next cfg m pblock AND UMM_FREELIST_MASK cfg = 0"
    and len0: "load_uint cfg m ?pc ?L = (?L + ?B + s + ?A) mod 256 ^ ?L"
    and pre: "poisoned m (?pc + of_nat ?L) ?B"
    and off: "2 \<le> ?O" and fits: "?O + (?L + ?B + s + ?A) \<le> 2 ^ LENGTH('a)"
    by (simp_all add: poisoned_block_def Let_def)
  from len0 exact have len: "load_uint cfg m ?pc ?L = ?L + ?B + s + ?A"
    by simp
  have a: "?a = pblock + of_nat (?O + ?L + ?B + s + i)"
    by (simp add: post_def body_data_def)
  have a_fit: "?O + ?L + ?B + s + i < 2 ^ LENGTH('a)"
    using fits i by linarith
  have neq: "?a \<noteq> pblock + of_nat x" if "x < ?O + ?L + ?B + s" for x
  proof -
    from that a_fit have "x < 2 ^ LENGTH('a)" "?O + ?L + ?B + s + i \<noteq> x"
      by linarith+
    with addr_eq_iff [OF a_fit, of x pblock] show ?thesis
      by (simp only: a) simp
  qed
  have "?a \<noteq> pblock + of_nat j" if "j < 2" for j
    using that off by (intro neq) linarith
  then have "load_uint cfg m' pblock 2 = load_uint cfg m pblock 2"
    unfolding m'_def by (intro load_uint_upd) blast
  then show hdr: "block_next cfg m' pblock = block_next cfg m pblock"
    by (simp add: block_next_def)
  have "?a \<noteq> ?pc + of_nat ?L + of_nat k" if "k < ?B" for k
  proof -
    from that have "?a \<noteq> pblock + of_nat (?O + ?L + k)"
      by (intro neq) linarith
    then show ?thesis
      by (simp add: body_data_def add.assoc)
  qed
  with pre have "poisoned m' (?pc + of_nat ?L) ?B"
    unfolding m'_def by (intro poisoned_upd) blast+
  then have pre_ok: "check_poison m' (?pc + of_nat ?L) (of_nat ?B) ''before'' = (True, [])"
    by (rule check_poison_poisoned)
  have "?a \<noteq> ?pc + of_nat j" if "j < ?L" for j
  proof -
    from that have "?a \<noteq> pblock + of_nat (?O + j)"
      by (intro neq) linarith
    then show ?thesis
      by (simp add: body_data_def add.assoc)
  qed
  then have "load_uint cfg m' ?pc ?L = load_uint cfg m ?pc ?L"
    unfolding m'_def by (intro load_uint_upd) blast
  with len have len': "load_uint cfg m' ?pc ?L = ?L + ?B + s + ?A"
    by simp
  have post_addr: "?pc + of_nat (?L + ?B + s + ?A) - of_nat ?A = post"
    by (simp add: post_def)
  have "?A < 2 ^ LENGTH('a)"
    using fits off by linarith
  then have "i < unat (of_nat ?A :: 'a word)"
    using i by (simp add: unat_of_nat_fits)
  moreover have "m' (post + of_nat i) \<noteq> POISON_BYTE"
    using v by (simp add: m'_def)
  ultimately have post_bad: "check_poison m' post (of_nat ?A) ''after''
      = (False, Log_no_poison ''after'' post # dump_mem m' post (of_nat ?A) @ [Log_newline])"
    by (rule check_poison_corrupt)
  have "check_poison_block cfg m' pblock
      = (let (ok2, log2) = check_poison m'
             (?pc + of_nat (?L + ?B + s + ?A) - of_nat ?A) (of_nat ?A) ''after''
         in if \<not> ok2 then (False, [] @ log2) else (True, [] @ log2))"
    using used hdr by (simp add: check_poison_block_def Let_def pre_ok len')
  then show "check_poison_block cfg m' pblock
      = (False, Log_no_poison ''after'' post # dump_mem m' post (of_nat ?A) @ [Log_newline])"
    by (simp only: post_addr post_bad prod.case Let_def simp_thms if_True append_Nil)
qed

lemma corrupt_block_scan:
  assumes used: "block_next cfg m pblock AND UMM_FREELIST_MASK cfg = 0"
    and bad: "check_poison_block cfg m pblock = (False, report)"
    and c: "UMM_BLOCK cfg c = pblock"
    and path: "scan_prefix cfg m (next_index cfg m 0) (bs @ [c])"
  shows "\<exists>calls lg. umm_poison_check cfg m = Some (False, calls, lg)"
    and "(\<forall>b\<in>set bs. block_used cfg m b \<longrightarrow> fst (check_poison_block cfg m (UMM_BLOCK cfg b)))
      \<Longrightarrow> umm_poison_check cfg m = Some (False, filter (block_used cfg m) bs @ [c], report)"
proof -
  from used c have used_c: "block_used cfg m c"
    by (simp add: block_used_next)
  from bad c have bad_c: "\<not> fst (check_poison_block cfg m (UMM_BLOCK cfg c))"
    and report: "snd (check_poison_block cfg m (UMM_BLOCK cfg c)) = report"
    by simp_all
  from path used_c bad_c show "\<exists>calls lg. umm_poison_check cfg m = Some (False, calls, lg)"
    unfolding umm_poison_check_loop by (intro scan_detects)
  assume "\<forall>b\<in>set bs. block_used cfg m b \<longrightarrow> fst (check_poison_block cfg m (UMM_BLOCK cfg b))"
  then have "\<forall>b\<in>set bs. block_used cfg m b \<longrightarrow>
      check_poison_block cfg m (UMM_BLOCK cfg b) = (True, [])"
    by (auto simp: block_used_next prod_eq_iff check_poison_block_log_ok)
  from scan_fail [OF path this used_c bad_c, of "[]" "[]"] report
  show "umm_poison_check cfg m = Some (False, filter (block_used cfg m) bs @ [c], report)"
    by (simp add: umm_poison_check_loop)
qed

text \<open>
  C2 (amended). Let the block at \<open>pblock\<close> hold a live allocation of \<open>s\<close> user bytes, and
  let one byte of a guard be overwritten with a value \<open>v\<close> other than the sentinel. If
  the byte lies in the pre-guard, \<^verbatim>\<open>check_poison_block\<close> returns false and its report is
  labelled "before", with the address of the pre-guard and its dump. If it lies in the
  post-guard and the inflated size is below \<open>256 ^ LEN_TYPE_SIZE\<close> (the length field
  holds it exactly), the result is false and the report is labelled "after", with the
  address of the post-guard and its dump. In both cases \<^verbatim>\<open>umm_poison_check\<close> returns
  false whenever its walk comes to that block (\<open>c\<close> is the block's index and \<open>bs\<close> the
  blocks walked before it); when the used blocks among \<open>bs\<close> pass their checks, the
  scan has checked them and \<open>c\<close>, in this order, and its log is that same labelled
  report.
\<close>

theorem guard_corruption_detected:
  fixes pblock :: "'a::len word"
  assumes blk: "poisoned_block cfg m pblock s" and v: "v \<noteq> POISON_BYTE"
  shows
   "(i < UMM_POISON_SIZE_BEFORE cfg \<longrightarrow>
      (let pre = body_data cfg pblock + of_nat (LEN_TYPE_SIZE cfg);
           m' = m(pre + of_nat i := v);
           report = Log_no_poison ''before'' pre
             # dump_mem m' pre (of_nat (UMM_POISON_SIZE_BEFORE cfg)) @ [Log_newline]
       in check_poison_block cfg m' pblock = (False, report) \<and>
          (UMM_BLOCK cfg c = pblock \<and> scan_prefix cfg m' (next_index cfg m' 0) (bs @ [c]) \<longrightarrow>
             (\<exists>calls lg. umm_poison_check cfg m' = Some (False, calls, lg)) \<and>
             ((\<forall>b\<in>set bs. block_used cfg m' b \<longrightarrow>
                  fst (check_poison_block cfg m' (UMM_BLOCK cfg b))) \<longrightarrow>
                umm_poison_check cfg m'
                  = Some (False, filter (block_used cfg m') bs @ [c], report))))) \<and>
    (i < UMM_POISON_SIZE_AFTER cfg \<and>
     LEN_TYPE_SIZE cfg + UMM_POISON_SIZE_BEFORE cfg + s + UMM_POISON_SIZE_AFTER cfg
       < 256 ^ LEN_TYPE_SIZE cfg \<longrightarrow>
      (let post = body_data cfg pblock
             + of_nat (LEN_TYPE_SIZE cfg + UMM_POISON_SIZE_BEFORE cfg + s);
           m' = m(post + of_nat i := v);
           report = Log_no_poison ''after'' post
             # dump_mem m' post (of_nat (UMM_POISON_SIZE_AFTER cfg)) @ [Log_newline]
       in check_poison_block cfg m' pblock = (False, report) \<and>
          (UMM_BLOCK cfg c = pblock \<and> scan_prefix cfg m' (next_index cfg m' 0) (bs @ [c]) \<longrightarrow>
             (\<exists>calls lg. umm_poison_check cfg m' = Some (False, calls, lg)) \<and>
             ((\<forall>b\<in>set bs. block_used cfg m' b \<longrightarrow>
                  fst (check_poison_block cfg m' (UMM_BLOCK cfg b))) \<longrightarrow>
                umm_poison_check cfg m'
                  = Some (False, filter (block_used cfg m') bs @ [c], report)))))"
proof -
  from blk have used: "block_next cfg m pblock AND UMM_FREELIST_MASK cfg = 0"
    by (simp add: poisoned_block_def Let_def)
  have scan: "check_poison_block cfg m' pblock = (False, report) \<and>
      (UMM_BLOCK cfg c = pblock \<and> scan_prefix cfg m' (next_index cfg m' 0) (bs @ [c]) \<longrightarrow>
         (\<exists>calls lg. umm_poison_check cfg m' = Some (False, calls, lg)) \<and>
         ((\<forall>b\<in>set bs. block_used cfg m' b \<longrightarrow>
              fst (check_poison_block cfg m' (UMM_BLOCK cfg b))) \<longrightarrow>
            umm_poison_check cfg m'
              = Some (False, filter (block_used cfg m') bs @ [c], report)))"
    if hdr: "block_next cfg m' pblock = block_next cfg m pblock"
      and bad: "check_poison_block cfg m' pblock = (False, report)" for m' report
  proof -
    from hdr used have used': "block_next cfg m' pblock AND UMM_FREELIST_MASK cfg = 0"
      by simp
    show ?thesis
    proof (intro conjI impI)
      show "check_poison_block cfg m' pblock = (False, report)"
        by (rule bad)
    next
      assume "UMM_BLOCK cfg c = pblock \<and> scan_prefix cfg m' (next_index cfg m' 0) (bs @ [c])"
      then show "\<exists>calls lg. umm_poison_check cfg m' = Some (False, calls, lg)"
        using corrupt_block_scan(1) [OF used' bad] by blast
    next
      assume "UMM_BLOCK cfg c = pblock \<and> scan_prefix cfg m' (next_index cfg m' 0) (bs @ [c])"
        and "\<forall>b\<in>set bs. block_used cfg m' b \<longrightarrow>
          fst (check_poison_block cfg m' (UMM_BLOCK cfg b))"
      then show "umm_poison_check cfg m'
          = Some (False, filter (block_used cfg m') bs @ [c], report)"
        using corrupt_block_scan(2) [OF used' bad] by blast
    qed
  qed
  show ?thesis
    unfolding Let_def
  proof (rule conjI; rule impI)
    assume i: "i < UMM_POISON_SIZE_BEFORE cfg"
    let ?pre = "body_data cfg pblock + of_nat (LEN_TYPE_SIZE cfg)"
    let ?m' = "m(?pre + of_nat i := v)"
    from poisoned_block_corrupt_pre [OF blk v i]
    show "check_poison_block cfg ?m' pblock
        = (False, Log_no_poison ''before'' ?pre
             # dump_mem ?m' ?pre (of_nat (UMM_POISON_SIZE_BEFORE cfg)) @ [Log_newline]) \<and>
      (UMM_BLOCK cfg c = pblock \<and> scan_prefix cfg ?m' (next_index cfg ?m' 0) (bs @ [c]) \<longrightarrow>
         (\<exists>calls lg. umm_poison_check cfg ?m' = Some (False, calls, lg)) \<and>
         ((\<forall>b\<in>set bs. block_used cfg ?m' b \<longrightarrow>
              fst (check_poison_block cfg ?m' (UMM_BLOCK cfg b))) \<longrightarrow>
            umm_poison_check cfg ?m'
              = Some (False, filter (block_used cfg ?m') bs @ [c],
                  Log_no_poison ''before'' ?pre
                  # dump_mem ?m' ?pre (of_nat (UMM_POISON_SIZE_BEFORE cfg)) @ [Log_newline])))"
      by (rule scan)
  next
    assume "i < UMM_POISON_SIZE_AFTER cfg \<and>
      LEN_TYPE_SIZE cfg + UMM_POISON_SIZE_BEFORE cfg + s + UMM_POISON_SIZE_AFTER cfg
        < 256 ^ LEN_TYPE_SIZE cfg"
    then have i: "i < UMM_POISON_SIZE_AFTER cfg"
      and exact: "LEN_TYPE_SIZE cfg + UMM_POISON_SIZE_BEFORE cfg + s + UMM_POISON_SIZE_AFTER cfg
        < 256 ^ LEN_TYPE_SIZE cfg"
      by simp_all
    let ?post = "body_data cfg pblock
        + of_nat (LEN_TYPE_SIZE cfg + UMM_POISON_SIZE_BEFORE cfg + s)"
    let ?m' = "m(?post + of_nat i := v)"
    from poisoned_block_corrupt_post [OF blk v exact i]
    show "check_poison_block cfg ?m' pblock
        = (False, Log_no_poison ''after'' ?post
             # dump_mem ?m' ?post (of_nat (UMM_POISON_SIZE_AFTER cfg)) @ [Log_newline]) \<and>
      (UMM_BLOCK cfg c = pblock \<and> scan_prefix cfg ?m' (next_index cfg ?m' 0) (bs @ [c]) \<longrightarrow>
         (\<exists>calls lg. umm_poison_check cfg ?m' = Some (False, calls, lg)) \<and>
         ((\<forall>b\<in>set bs. block_used cfg ?m' b \<longrightarrow>
              fst (check_poison_block cfg ?m' (UMM_BLOCK cfg b))) \<longrightarrow>
            umm_poison_check cfg ?m'
              = Some (False, filter (block_used cfg ?m') bs @ [c],
                  Log_no_poison ''after'' ?post
                  # dump_mem ?m' ?post (of_nat (UMM_POISON_SIZE_AFTER cfg)) @ [Log_newline])))"
      by (rule scan)
  qed
qed


theorem guard_corruption_detected_witness:
  "poisoned_block example_cfg example_heap 0x1008 1 \<and>
   poisoned_block example_cfg example_heap 0x1020 1 \<and>
   (0 :: byte) \<noteq> POISON_BYTE \<and>
   check_poison_block example_cfg (example_heap(0x100E := 0)) 0x1008
     = (False, [Log_no_poison ''before'' 0x100E, Log_byte 0, Log_byte 0xA5, Log_byte 0xA5,
          Log_byte 0xA5, Log_newline]) \<and>
   umm_poison_check example_cfg (example_heap(0x100E := 0))
     = Some (False, [1], [Log_no_poison ''before'' 0x100E, Log_byte 0, Log_byte 0xA5,
          Log_byte 0xA5, Log_byte 0xA5, Log_newline]) \<and>
   check_poison_block example_cfg (example_heap(0x102E := 0)) 0x1020
     = (False, [Log_no_poison ''after'' 0x102B, Log_byte 0xA5, Log_byte 0xA5, Log_byte 0xA5,
          Log_byte 0, Log_newline]) \<and>
   umm_poison_check example_cfg (example_heap(0x102E := 0))
     = Some (False, [1, 4], [Log_no_poison ''after'' 0x102B, Log_byte 0xA5, Log_byte 0xA5,
          Log_byte 0xA5, Log_byte 0, Log_newline])"
proof -
  let ?pre_heap = "example_heap(0x100E := 0)" and ?post_heap = "example_heap(0x102E := 0)"
  have blk: "poisoned_block example_cfg example_heap 0x1008 1"
    "poisoned_block example_cfg example_heap 0x1020 1"
    by (simp_all add: eval_simps)
  have v: "(0 :: byte) \<noteq> POISON_BYTE"
    by (simp add: POISON_BYTE_def)
  have i: "(0::nat) < UMM_POISON_SIZE_BEFORE example_cfg"
    "(3::nat) < UMM_POISON_SIZE_AFTER example_cfg \<and>
     LEN_TYPE_SIZE example_cfg + UMM_POISON_SIZE_BEFORE example_cfg + 1
       + UMM_POISON_SIZE_AFTER example_cfg < 256 ^ LEN_TYPE_SIZE example_cfg"
    by (simp_all add: example_cfg_def)
  have addr: "body_data example_cfg 0x1008 + of_nat (LEN_TYPE_SIZE example_cfg) = 0x100E"
    "(0x100E :: 32 word) + of_nat 0 = 0x100E"
    "body_data example_cfg 0x1020
       + of_nat (LEN_TYPE_SIZE example_cfg + UMM_POISON_SIZE_BEFORE example_cfg + 1) = 0x102B"
    "(0x102B :: 32 word) + of_nat 3 = 0x102E"
    by (simp_all add: example_cfg_def body_data_def)
  have path: "UMM_BLOCK example_cfg 1 = 0x1008 \<and>
      scan_prefix example_cfg ?pre_heap (next_index example_cfg ?pre_heap 0) ([] @ [1])"
    "UMM_BLOCK example_cfg 4 = 0x1020 \<and>
      scan_prefix example_cfg ?post_heap (next_index example_cfg ?post_heap 0) ([1, 3] @ [4])"
    by (simp_all add: eval_simps)
  have pass: "\<forall>b\<in>set []. block_used example_cfg ?pre_heap b \<longrightarrow>
      fst (check_poison_block example_cfg ?pre_heap (UMM_BLOCK example_cfg b))"
    "\<forall>b\<in>set [1, 3]. block_used example_cfg ?post_heap b \<longrightarrow>
      fst (check_poison_block example_cfg ?post_heap (UMM_BLOCK example_cfg b))"
    by (simp_all add: eval_simps)
  have used: "filter (block_used example_cfg ?pre_heap) [] @ [1] = [1]"
    "filter (block_used example_cfg ?post_heap) [1, 3] @ [4] = [1, 4]"
    by (simp_all add: eval_simps)
  have dump: "Log_no_poison ''before'' 0x100E
      # dump_mem ?pre_heap 0x100E (of_nat (UMM_POISON_SIZE_BEFORE example_cfg)) @ [Log_newline]
      = [Log_no_poison ''before'' 0x100E, Log_byte 0, Log_byte 0xA5, Log_byte 0xA5,
         Log_byte 0xA5, Log_newline]"
    "Log_no_poison ''after'' 0x102B
      # dump_mem ?post_heap 0x102B (of_nat (UMM_POISON_SIZE_AFTER example_cfg)) @ [Log_newline]
      = [Log_no_poison ''after'' 0x102B, Log_byte 0xA5, Log_byte 0xA5, Log_byte 0xA5,
         Log_byte 0, Log_newline]"
    by (simp_all add: eval_simps)
  note before = guard_corruption_detected [OF blk(1) v, of 0 1 "[]", unfolded Let_def addr,
      THEN conjunct1, THEN mp, OF i(1)]
  note after = guard_corruption_detected [OF blk(2) v, of 3 4 "[1, 3]", unfolded Let_def addr,
      THEN conjunct2, THEN mp, OF i(2)]
  note before_scan = before [THEN conjunct2, THEN mp, OF path(1), THEN conjunct2, THEN mp,
      OF pass(1)]
  note after_scan = after [THEN conjunct2, THEN mp, OF path(2), THEN conjunct2, THEN mp,
      OF pass(2)]
  from before [THEN conjunct1] before_scan after [THEN conjunct1] after_scan blk v
  show ?thesis
    unfolding used dump by (intro conjI)
qed

lemma large_heap_scan:
  "umm_poison_check example_cfg (large_heap(0x11012 := 0)) = Some (True, [1], [])"
proof -
  let ?h = "large_heap(0x11012 := 0)"
  have "scan_path example_cfg ?h (next_index example_cfg ?h 0) [1]"
    by (simp add: large_heap_def large_heap_base_def umm_poison_malloc_def block1_malloc_def
        poison_size_def eval_mem_simps eval_simps)
  moreover have "\<forall>b\<in>set [1]. block_used example_cfg ?h b \<longrightarrow>
      check_poison_block example_cfg ?h (UMM_BLOCK example_cfg b) = (True, [])"
    by (simp add: large_heap_def large_heap_base_def umm_poison_malloc_def block1_malloc_def
        poison_size_def eval_mem_simps eval_simps)
  ultimately have "poison_check_loop example_cfg ?h (next_index example_cfg ?h 0) [] []
      = Some (True, [] @ filter (block_used example_cfg ?h) [1], [])"
    by (rule scan_pass)
  moreover have "filter (block_used example_cfg ?h) [1] = [1]"
    by (simp add: large_heap_def large_heap_base_def umm_poison_malloc_def block1_malloc_def
        poison_size_def eval_mem_simps eval_simps)
  ultimately show ?thesis
    by (simp add: umm_poison_check_loop)
qed

text \<open>
  With a 16-bit length field an allocation of \<open>0x10000\<close> user bytes stores the length
  \<open>0x1000A\<close> as 10, so the check looks for the post-guard 6 bytes behind the raw pointer,
  among the user's bytes. When these hold \<open>0xA5\<close>, overwriting the first byte of the
  real post-guard, at \<open>0x11012\<close>, with 0 goes unnoticed: the check of the block and the
  scan of the heap both pass.
\<close>

theorem guard_corruption_detected_counterexample:
  "fst (umm_poison_malloc example_cfg block1_malloc large_heap_base 0x10000) = 0x1012 \<and>
   poisoned_block example_cfg large_heap 0x1008 0x10000 \<and>
   body_data example_cfg 0x1008
     + of_nat (LEN_TYPE_SIZE example_cfg + UMM_POISON_SIZE_BEFORE example_cfg + 0x10000)
     = 0x11012 \<and>
   large_heap 0x11012 = POISON_BYTE \<and>
   (0 :: byte) \<noteq> POISON_BYTE \<and>
   check_poison_block example_cfg (large_heap(0x11012 := 0)) 0x1008 = (True, []) \<and>
   umm_poison_check example_cfg (large_heap(0x11012 := 0)) = Some (True, [1], [])"
  using large_heap_scan
  by (simp add: large_heap_def large_heap_base_def umm_poison_malloc_def block1_malloc_def
      poison_size_def eval_mem_simps eval_simps)

end
